theory Spec2Isabelle
  imports Complex_Main "HOL-Library.Word" "HOL-Library.AList"
begin

unbundle bit_operations_syntax

section \<open>PN532 writer for NTAG215 tags: a model of \<open>nfc_controller_writer.py\<close>\<close>

text \<open>
  The module is Python. Its integers are unbounded and are modelled as \<^typ>\<open>int\<close>; the
  elements of a \<open>bytes\<close> or \<open>bytearray\<close> object, and the octets delivered by the I2C
  bus, are modelled as \<^typ>\<open>8 word\<close>. Console output (\<open>print\<close>) and delays
  (\<open>time.sleep\<close>) are not part of the model.
\<close>

type_synonym byte = "8 word"

subsection \<open>Frame codec: \<open>NFCWriter._build_command\<close>\<close>

definition PN532_PREAMBLE :: int where "PN532_PREAMBLE = 0x00"
definition PN532_STARTCODE1 :: int where "PN532_STARTCODE1 = 0x00"
definition PN532_STARTCODE2 :: int where "PN532_STARTCODE2 = 0xFF"
definition PN532_POSTAMBLE :: int where "PN532_POSTAMBLE = 0x00"
definition PN532_HOSTTOPN532 :: int where "PN532_HOSTTOPN532 = 0xD4"

definition CMD_INLISTPASSIVETARGET :: int where "CMD_INLISTPASSIVETARGET = 0x4A"
definition CMD_INDATAEXCHANGE :: int where "CMD_INDATAEXCHANGE = 0x40"
definition NTAG_CMD_WRITE :: int where "NTAG_CMD_WRITE = 0xA2"

text \<open>
  \<^verbatim>\<open>length = len(data) + 1;  lcs = (~length + 1) & 0xFF\<close>, the seven header
  octets, the data, then \<^verbatim>\<open>dcs = (~sum([0xD4, cmd] + data) + 1) & 0xFF\<close> and the
  postamble. The default \<open>data=None\<close> is the empty list.
\<close>

definition build_command :: "int \<Rightarrow> int list \<Rightarrow> int list" where
  "build_command cmd data =
     (let len = int (length data) + 1;
          lcs = (NOT len + 1) AND 0xFF;
          frame = [PN532_PREAMBLE, PN532_STARTCODE1, PN532_STARTCODE2, len, lcs,
                   PN532_HOSTTOPN532, cmd];
          frame = frame @ data;
          dcs = (NOT (sum_list ([PN532_HOSTTOPN532, cmd] @ data)) + 1) AND 0xFF;
          frame = frame @ [dcs];
          frame = frame @ [PN532_POSTAMBLE]
      in frame)"

text \<open>
  The fields of a frame, read back from its octets by position: the layout is
  \<open>[preamble, start0, start1, length, length-checksum, direction, command, data...,
  data-checksum, postamble]\<close>.
\<close>

definition frame_length :: "int list \<Rightarrow> int" where
  "frame_length f = f ! 3"

definition frame_lcs :: "int list \<Rightarrow> int" where
  "frame_lcs f = f ! 4"

definition frame_direction :: "int list \<Rightarrow> int" where
  "frame_direction f = f ! 5"

definition frame_command :: "int list \<Rightarrow> int" where
  "frame_command f = f ! 6"

definition frame_data :: "int list \<Rightarrow> int list" where
  "frame_data f = take (length f - 9) (drop 7 f)"

definition frame_dcs :: "int list \<Rightarrow> int" where
  "frame_dcs f = f ! (length f - 2)"

text \<open>The two checksum invariants of the data model, as the specification words them.\<close>

definition length_checksum :: "int \<Rightarrow> int" where
  "length_checksum len = (- len) mod 256"

definition data_checksum :: "int \<Rightarrow> int \<Rightarrow> int list \<Rightarrow> int" where
  "data_checksum direction cmd data = (- (direction + cmd + sum_list data)) mod 256"

subsection \<open>The I2C bus and the progress callback\<close>

text \<open>
  The bus is outside the program. Its behaviour during a run is given in advance by two
  scripts, consumed one entry per transaction: whether each write transaction
  (\<open>i2c_rdwr\<close> of an \<open>i2c_msg.write\<close>) completes or raises, and what each read
  transaction delivers (\<open>None\<close> when it raises). A transaction attempted after its
  script has run out raises. The program is deterministic and sequential, so every
  behaviour of a device during one run is one such pair of scripts.

  A third script says whether each invocation of the caller's progress callback returns
  (\<open>True\<close>) or raises; once it has run out, invocations return.

  The trace records, in program order, every frame handed to the bus, every read
  requested (with its length) and every value passed to the progress callback.
\<close>

datatype event = Bus_Write "int list" | Bus_Read nat | Progress int

record world =
  write_script :: "bool list"
  read_script :: "byte list option list"
  callback_script :: "bool list"
  trace :: "event list"

definition i2c_write :: "int list \<Rightarrow> world \<Rightarrow> bool \<times> world" where
  "i2c_write buf w =
     (case write_script w of
        [] \<Rightarrow> (False, w\<lparr>trace := trace w @ [Bus_Write buf]\<rparr>)
      | done # rest \<Rightarrow> (done, w\<lparr>write_script := rest, trace := trace w @ [Bus_Write buf]\<rparr>))"

definition i2c_read :: "nat \<Rightarrow> world \<Rightarrow> byte list option \<times> world" where
  "i2c_read len w =
     (case read_script w of
        [] \<Rightarrow> (None, w\<lparr>trace := trace w @ [Bus_Read len]\<rparr>)
      | msg # rest \<Rightarrow> (msg, w\<lparr>read_script := rest, trace := trace w @ [Bus_Read len]\<rparr>))"

definition call_progress_callback :: "int \<Rightarrow> world \<Rightarrow> bool \<times> world" where
  "call_progress_callback progress w =
     (case callback_script w of
        [] \<Rightarrow> (True, w\<lparr>trace := trace w @ [Progress progress]\<rparr>)
      | returns # rest \<Rightarrow>
          (returns, w\<lparr>callback_script := rest, trace := trace w @ [Progress progress]\<rparr>))"

text \<open>The events a run adds to the trace, and the two projections of a list of events.\<close>

definition issued :: "world \<Rightarrow> world \<Rightarrow> event list" where
  "issued w w' = drop (length (trace w)) (trace w')"

fun bus_writes :: "event list \<Rightarrow> int list list" where
  "bus_writes [] = []"
| "bus_writes (Bus_Write f # es) = f # bus_writes es"
| "bus_writes (_ # es) = bus_writes es"

fun progress_values :: "event list \<Rightarrow> int list" where
  "progress_values [] = []"
| "progress_values (Progress p # es) = p # progress_values es"
| "progress_values (_ # es) = progress_values es"

subsection \<open>Python slices\<close>

text \<open>
  \<open>xs[i:j]\<close> and \<open>xs[i:j] = ys\<close> (step 1) on a sequence of length \<open>n\<close>: a negative
  bound counts from the end, and both bounds are clamped to \<open>0..n\<close>. An assignment whose
  upper bound lies below its lower bound inserts at the lower bound.
\<close>

definition py_index :: "nat \<Rightarrow> int \<Rightarrow> nat" where
  "py_index n i = (if i < 0 then nat (max (i + int n) 0) else min (nat i) n)"

definition getslice :: "'a list \<Rightarrow> int \<Rightarrow> int \<Rightarrow> 'a list" where
  "getslice xs i j =
     (let lo = py_index (length xs) i; hi = py_index (length xs) j
      in take (hi - lo) (drop lo xs))"

definition setslice :: "'a list \<Rightarrow> int \<Rightarrow> int \<Rightarrow> 'a list \<Rightarrow> 'a list" where
  "setslice xs i j ys =
     (let lo = py_index (length xs) i; hi = py_index (length xs) j
      in take lo xs @ ys @ drop (max lo hi) xs)"

subsection \<open>\<open>NFCWriter._send_command\<close> and \<open>NFCWriter._read_response\<close>\<close>

text \<open>
  \<open>smbus2.i2c_msg.write(address, cmd)\<close> converts the list with \<open>bytes(cmd)\<close>, which
  raises \<open>ValueError\<close> for an element outside 0..255, before the bus is touched. That
  exception and any exception of the transaction are caught: \<open>_send_command\<close> then
  returns \<open>False\<close>.
\<close>

definition is_octet :: "int \<Rightarrow> bool" where
  "is_octet x = (0 \<le> x \<and> x < 256)"

definition send_command :: "int list \<Rightarrow> world \<Rightarrow> bool \<times> world" where
  "send_command cmd w =
     (if list_all is_octet cmd then
        (case i2c_write cmd w of
           (True, w') \<Rightarrow> (True, w')
         | (False, w') \<Rightarrow> (False, w'))
      else (False, w))"

text \<open>
  \<^verbatim>\<open>if response[0] == 0x01: response = response[1:]\<close>. On an empty read
  \<open>response[0]\<close> raises \<open>IndexError\<close>, which \<open>_read_response\<close> catches like a bus
  error: it returns \<open>None\<close>.
\<close>

definition strip_ready :: "byte list \<Rightarrow> byte list option" where
  "strip_ready response =
     (case response of
        [] \<Rightarrow> None
      | b # rest \<Rightarrow> if b = 0x01 then Some rest else Some response)"

definition read_response :: "nat \<Rightarrow> world \<Rightarrow> byte list option \<times> world" where
  "read_response len w =
     (case i2c_read len w of
        (None, w') \<Rightarrow> (None, w')
      | (Some response, w') \<Rightarrow> (strip_ready response, w'))"

subsection \<open>Tag detector: \<open>NFCWriter.detect_tag\<close>\<close>

text \<open>
  The loop \<^verbatim>\<open>for offset in range(min(10, len(response)))\<close>. The offsets are below the
  length of the response, and \<open>uid_offset\<close> is checked before it is used, so no index is
  out of range; the elements are octets, so \<open>bytes(...)\<close> does not raise and the inner
  \<open>except\<close> is never entered.
\<close>

fun scan_offsets :: "byte list \<Rightarrow> nat list \<Rightarrow> byte list option" where
  "scan_offsets response [] = None"
| "scan_offsets response (offset # rest) =
     (if response ! offset > 0 \<and> response ! offset < 5 then
        (let uid_offset = offset + 5 in
         if uid_offset < length response then
           (let uid_length = unat (response ! uid_offset) in
            if 4 \<le> uid_length \<and> uid_length \<le> 10 then
              (let tag_uid = getslice response (int uid_offset + 1)
                               (int uid_offset + 1 + int uid_length) in
               if length tag_uid = uid_length then Some tag_uid
               else scan_offsets response rest)
            else scan_offsets response rest)
         else scan_offsets response rest)
      else scan_offsets response rest)"

definition scan_response :: "byte list \<Rightarrow> byte list option" where
  "scan_response response = scan_offsets response [0 ..< min 10 (length response)]"

definition detect_tag :: "world \<Rightarrow> byte list option \<times> world" where
  "detect_tag w =
     (let cmd = build_command CMD_INLISTPASSIVETARGET [0x01, 0x00] in
      case send_command cmd w of
        (False, w1) \<Rightarrow> (None, w1)
      | (True, w1) \<Rightarrow>
          (case read_response 64 w1 of
             (None, w2) \<Rightarrow> (None, w2)
           | (Some response, w2) \<Rightarrow>
               if response = [] then (None, w2)
               else (scan_response response, w2)))"

subsection \<open>Page write engine: \<open>NFCWriter.write_page\<close> and \<open>NFCWriter.write_amiibo\<close>\<close>

text \<open>
  \<^verbatim>\<open>if response and len(response) > 8:\<close>
  \<^verbatim>\<open>    if response[6] == 0xD5 and response[7] == 0x41 and response[8] == 0x00:\<close>
\<close>

definition write_acknowledged :: "byte list \<Rightarrow> bool" where
  "write_acknowledged response =
     (response \<noteq> [] \<and> length response > 8
      \<and> response ! 6 = 0xD5 \<and> response ! 7 = 0x41 \<and> response ! 8 = 0x00)"

text \<open>The \<open>ValueError\<close> for data that is not 4 octets long is caught in \<open>write_page\<close> itself.\<close>

definition write_page :: "int \<Rightarrow> byte list \<Rightarrow> world \<Rightarrow> bool \<times> world" where
  "write_page page_num data w =
     (if length data \<noteq> 4 then (False, w)
      else
        (let cmd_data = [0x01, NTAG_CMD_WRITE, page_num] @ map uint data;
             cmd = build_command CMD_INDATAEXCHANGE cmd_data
         in case send_command cmd w of
              (False, w1) \<Rightarrow> (False, w1)
            | (True, w1) \<Rightarrow>
                (case read_response 64 w1 of
                   (None, w2) \<Rightarrow> (False, w2)
                 | (Some response, w2) \<Rightarrow> (write_acknowledged response, w2))))"

text \<open>
  \<^verbatim>\<open>progress = int((page - 4) / (130 - 4) * 100)\<close> is computed in floating point and
  truncated. The loop calls it for \<open>4 \<le> page < 130\<close> only, and there it is the integer
  quotient below: the exact value \<open>100 * (page - 4) / 126\<close> is either an integer (for
  page 4 and page 67, where the floating-point result is exact: 0.0 and 0.5 * 100 = 50.0)
  or at least 1/63 away from every integer, far more than the rounding error of the two
  floating-point operations.
\<close>

definition progress_percent :: "int \<Rightarrow> int" where
  "progress_percent page = (page - 4) * 100 div (130 - 4)"

text \<open>
  The body of \<^verbatim>\<open>for page in range(4, 130)\<close>, as a recursion on the pages left. The
  parameter \<open>has_callback\<close> says whether a \<open>progress_callback\<close> was passed. A callback
  that raises ends \<open>write_amiibo\<close> through its \<open>except\<close> clause, with \<open>False\<close>.
\<close>

fun write_pages :: "byte list \<Rightarrow> bool \<Rightarrow> int list \<Rightarrow> world \<Rightarrow> bool \<times> world" where
  "write_pages raw has_callback [] w = (True, w)"
| "write_pages raw has_callback (page # pages) w =
     (let offset = page * 4;
          page_data = getslice raw offset (offset + 4);
          page_data = (if length page_data < 4
                       then page_data @ replicate (4 - length page_data) 0x00
                       else page_data)
      in case write_page page page_data w of
           (True, w1) \<Rightarrow>
             (if has_callback then
                (case call_progress_callback (progress_percent page) w1 of
                   (True, w2) \<Rightarrow> write_pages raw has_callback pages w2
                 | (False, w2) \<Rightarrow> (False, w2))
              else write_pages raw has_callback pages w1)
         | (False, w1) \<Rightarrow> (False, w1))"

record amiibo =
  raw_data :: "byte list"
  uid :: string
  character :: string

text \<open>The pages of \<^verbatim>\<open>range(4, 130)\<close>, in order.\<close>

definition data_page_range :: "int list" where
  "data_page_range = [4 .. 129]"

text \<open>\<^verbatim>\<open>if not uid:\<close> is true for \<open>None\<close> and for an empty \<open>bytes\<close> object.\<close>

definition write_amiibo :: "amiibo \<Rightarrow> bool \<Rightarrow> world \<Rightarrow> bool \<times> world" where
  "write_amiibo amiibo_data has_callback w =
     (let raw = raw_data amiibo_data in
      if length raw < 540 then (False, w)
      else
        (case detect_tag w of
           (None, w1) \<Rightarrow> (False, w1)
         | (Some tag_uid, w1) \<Rightarrow>
             if tag_uid = [] then (False, w1)
             else write_pages raw has_callback data_page_range w1))"

text \<open>
  The two kinds of frame the module hands to the bus during a write: the detection
  command, and the single-page write of the four octets of the image at \<open>page * 4\<close>.
\<close>

definition detect_frame :: "int list" where
  "detect_frame = build_command CMD_INLISTPASSIVETARGET [0x01, 0x00]"

definition page_frame :: "byte list \<Rightarrow> int \<Rightarrow> int list" where
  "page_frame raw page =
     build_command CMD_INDATAEXCHANGE
       ([0x01, NTAG_CMD_WRITE, page] @ map uint (getslice raw (page * 4) (page * 4 + 4)))"

text \<open>What a read must deliver for \<open>write_page\<close> to report success.\<close>

definition read_succeeds :: "byte list \<Rightarrow> bool" where
  "read_succeeds delivered =
     (case strip_ready delivered of
        None \<Rightarrow> False
      | Some response \<Rightarrow> write_acknowledged response)"

text \<open>
  What a frame on the bus asks the tag to do: a single-page write is an \<open>InDataExchange\<close>
  frame (host to controller, command \<open>0x40\<close>) whose payload starts with the target
  number, the NTAG write command \<open>0xA2\<close> and the page number.
\<close>

definition page_write_target :: "int list \<Rightarrow> int option" where
  "page_write_target f =
     (case drop 5 f of
        direction # cmd # target # ntag_cmd # page # rest \<Rightarrow>
          if direction = PN532_HOSTTOPN532 \<and> cmd = CMD_INDATAEXCHANGE \<and> ntag_cmd = NTAG_CMD_WRITE
          then Some page else None
      | _ \<Rightarrow> None)"

text \<open>
  The progress formula of the specification,
  \<open>round((page - firstPage) / (lastPageExclusive - firstPage) * 100)\<close>, over the reals.
\<close>

definition spec_progress :: "int \<Rightarrow> int \<Rightarrow> int \<Rightarrow> int" where
  "spec_progress first_page last_page_exclusive page =
     round (real_of_int (page - first_page) / real_of_int (last_page_exclusive - first_page) * 100)"

subsection \<open>Python strings\<close>

text \<open>
  A Python \<open>str\<close> is modelled as a \<^typ>\<open>string\<close>, whose 8-bit characters stand for the
  code points below 256; a text with other code points is outside the model. Among these
  code points, \<open>str.strip\<close> and \<open>str.split\<close> take as whitespace the characters 9..13,
  28..31, 32, 0x85 and 0xA0. \<open>bytes.fromhex\<close> is the one of Python 3.7 and later, which
  skips ASCII whitespace (9..13 and 32) between octets.
\<close>

datatype py_error = ValueError | IndexError

definition isspace :: "char \<Rightarrow> bool" where
  "isspace c = (of_char c \<in> {9, 10, 11, 12, 13, 28, 29, 30, 31, 32, 0x85, 0xA0 :: nat})"

definition strip_chars :: "(char \<Rightarrow> bool) \<Rightarrow> string \<Rightarrow> string" where
  "strip_chars is_space s = rev (dropWhile is_space (rev (dropWhile is_space s)))"

definition strip :: "string \<Rightarrow> string" where
  "strip s = strip_chars isspace s"

definition startswith :: "string \<Rightarrow> string \<Rightarrow> bool" where
  "startswith s prefix = (take (length prefix) s = prefix)"

text \<open>\<open>s.split(sep)\<close> for a one-character separator.\<close>

fun split_char :: "char \<Rightarrow> string \<Rightarrow> string list" where
  "split_char sep [] = [[]]"
| "split_char sep (c # cs) =
     (if c = sep then [] # split_char sep cs
      else (case split_char sep cs of [] \<Rightarrow> [[c]] | h # t \<Rightarrow> (c # h) # t))"

text \<open>\<open>s.split(sep, 1)\<close>: one part when the separator is absent, else two.\<close>

definition split_once :: "char \<Rightarrow> string \<Rightarrow> string list" where
  "split_once sep s =
     (case dropWhile (\<lambda>c. c \<noteq> sep) s of
        [] \<Rightarrow> [s]
      | _ # after \<Rightarrow> [takeWhile (\<lambda>c. c \<noteq> sep) s, after])"

text \<open>\<open>s.split()\<close>: the maximal runs of characters that are not whitespace.\<close>

fun split_ws_from :: "string \<Rightarrow> string \<Rightarrow> string list" where
  "split_ws_from cur [] = (if cur = [] then [] else [cur])"
| "split_ws_from cur (c # cs) =
     (if isspace c then (if cur = [] then split_ws_from [] cs else cur # split_ws_from [] cs)
      else split_ws_from (cur @ [c]) cs)"

definition split_ws :: "string \<Rightarrow> string list" where
  "split_ws s = split_ws_from [] s"

text \<open>\<open>s.replace(old, new)\<close> for a non-empty \<open>old\<close>, the only use the module makes of it.\<close>

fun replace_str :: "string \<Rightarrow> string \<Rightarrow> string \<Rightarrow> string" where
  "replace_str old new [] = []"
| "replace_str old new (c # cs) =
     (if old \<noteq> [] \<and> take (length old) (c # cs) = old
      then new @ replace_str old new (drop (length old - 1) cs)
      else c # replace_str old new cs)"

text \<open>
  \<open>int(s)\<close> in base 10: surrounding whitespace, an optional sign, then digits, where
  single underscores may stand between digits. Anything else is a \<open>ValueError\<close>, and so
  is a numeral of more than 4300 digits (the default limit of CPython 3.11 on the
  conversion; leading zeros count, underscores do not). The whitespace that \<open>int\<close>
  removes is 9..13, 32, 0x85 and 0xA0: unlike \<open>str.strip\<close>, it does not take 28..31 as
  whitespace.
\<close>

definition isspace_int :: "char \<Rightarrow> bool" where
  "isspace_int c = (of_char c \<in> {9, 10, 11, 12, 13, 32, 0x85, 0xA0 :: nat})"

definition MAX_STR_DIGITS :: nat where
  "MAX_STR_DIGITS = 4300"

definition digit_val :: "char \<Rightarrow> int option" where
  "digit_val c =
     (let n = (of_char c :: nat) in if 48 \<le> n \<and> n \<le> 57 then Some (int n - 48) else None)"

fun parse_digits :: "int \<Rightarrow> bool \<Rightarrow> string \<Rightarrow> int option" where
  "parse_digits acc after_digit [] = (if after_digit then Some acc else None)"
| "parse_digits acc after_digit (c # cs) =
     (if c = CHR ''_'' then
        (if after_digit \<and> cs \<noteq> [] then parse_digits acc False cs else None)
      else (case digit_val c of
              None \<Rightarrow> None
            | Some d \<Rightarrow> parse_digits (acc * 10 + d) True cs))"

definition py_int :: "string \<Rightarrow> py_error + int" where
  "py_int s =
     (case strip_chars isspace_int s of
        [] \<Rightarrow> Inl ValueError
      | c # cs \<Rightarrow>
          (let (sign, body) = (if c = CHR ''-'' then (- 1, cs)
                               else if c = CHR ''+'' then (1, cs)
                               else (1, c # cs))
           in if length (filter (\<lambda>d. d \<noteq> CHR ''_'') body) > MAX_STR_DIGITS
              then Inl ValueError
              else (case parse_digits 0 False body of
                      None \<Rightarrow> Inl ValueError
                    | Some v \<Rightarrow> Inr (sign * v))))"

text \<open>
  \<open>bytes.fromhex(s)\<close>: pairs of hexadecimal digits; ASCII whitespace is skipped before a
  pair, not inside one.
\<close>

definition isspace_ascii :: "char \<Rightarrow> bool" where
  "isspace_ascii c = (of_char c \<in> {9, 10, 11, 12, 13, 32 :: nat})"

definition hex_val :: "char \<Rightarrow> nat option" where
  "hex_val c =
     (let n = (of_char c :: nat) in
      if 48 \<le> n \<and> n \<le> 57 then Some (n - 48)
      else if 97 \<le> n \<and> n \<le> 102 then Some (n - 87)
      else if 65 \<le> n \<and> n \<le> 70 then Some (n - 55)
      else None)"

fun fromhex :: "string \<Rightarrow> py_error + byte list" where
  "fromhex [] = Inr []"
| "fromhex [c] = (if isspace_ascii c then Inr [] else Inl ValueError)"
| "fromhex (c # d # cs) =
     (if isspace_ascii c then fromhex (d # cs)
      else (case (hex_val c, hex_val d) of
              (Some hi, Some lo) \<Rightarrow>
                (case fromhex cs of
                   Inl e \<Rightarrow> Inl e
                 | Inr bs \<Rightarrow> Inr (word_of_nat (16 * hi + lo) # bs))
            | _ \<Rightarrow> Inl ValueError))"

text \<open>\<open>b.hex().upper()\<close>\<close>

definition hex_digit :: "nat \<Rightarrow> char" where
  "hex_digit n = ''0123456789ABCDEF'' ! (n mod 16)"

definition hex_upper :: "byte list \<Rightarrow> string" where
  "hex_upper bs = concat (map (\<lambda>b. [hex_digit (unat b div 16), hex_digit (unat b mod 16)]) bs)"

subsection \<open>Dump loader: \<open>NFCWriter._parse_flipper_format\<close> and \<open>NFCWriter.load_amiibo\<close>\<close>

text \<open>
  The dictionary \<open>data_pages\<close> is an association list in insertion order: assigning to a
  key that is present replaces its value in place, as a Python \<open>dict\<close> does.

  The first loop, over the lines. An exception (\<open>ValueError\<close> from \<open>int\<close> or
  \<open>bytes.fromhex\<close>, \<open>IndexError\<close> from \<open>parts[0].split()[1]\<close>) leaves the function.
\<close>

type_synonym page_dict = "(int \<times> byte list) list"

fun parse_lines ::
  "string list \<Rightarrow> byte list \<Rightarrow> page_dict \<Rightarrow> py_error + (byte list \<times> page_dict)" where
  "parse_lines [] uid_bytes data_pages = Inr (uid_bytes, data_pages)"
| "parse_lines (l # lines) uid_bytes data_pages =
     (let line = strip l in
      if startswith line ''UID:'' then
        (case split_once CHR '':'' line of
           _ # after # _ \<Rightarrow>
             (let hex_str = strip after in
              case fromhex (replace_str '' '' '''' hex_str) of
                Inl e \<Rightarrow> Inl e
              | Inr bs \<Rightarrow> parse_lines lines bs data_pages)
         | _ \<Rightarrow> Inl IndexError)
      else if startswith line ''Page '' then
        (let parts = split_once CHR '':'' line in
         if length parts \<ge> 2 then
           (case split_ws (parts ! 0) of
              _ # number # _ \<Rightarrow>
                (case py_int number of
                   Inl e \<Rightarrow> Inl e
                 | Inr page_num \<Rightarrow>
                     (let hex_data = strip (parts ! 1) in
                      case fromhex (replace_str '' '' '''' hex_data) of
                        Inl e \<Rightarrow> Inl e
                      | Inr bs \<Rightarrow>
                          parse_lines lines uid_bytes (AList.update page_num bs data_pages)))
            | _ \<Rightarrow> Inl IndexError)
         else parse_lines lines uid_bytes data_pages)
      else parse_lines lines uid_bytes data_pages)"

text \<open>
  The second loop: \<^verbatim>\<open>if offset + len(page_data) <= len(raw_data):\<close>
  \<^verbatim>\<open>raw_data[offset:offset+len(page_data)] = page_data\<close>.
\<close>

fun place_pages :: "page_dict \<Rightarrow> byte list \<Rightarrow> byte list" where
  "place_pages [] raw = raw"
| "place_pages ((page_num, page_data) # rest) raw =
     (let offset = page_num * 4 in
      if offset + int (length page_data) \<le> int (length raw)
      then place_pages rest (setslice raw offset (offset + int (length page_data)) page_data)
      else place_pages rest raw)"

definition parse_flipper_format :: "string \<Rightarrow> string \<Rightarrow> py_error + amiibo" where
  "parse_flipper_format content character_name =
     (case parse_lines (split_char (CHR 0x0A) content) [] [] of
        Inl e \<Rightarrow> Inl e
      | Inr (uid_bytes, data_pages) \<Rightarrow>
          if uid_bytes = [] then Inl ValueError
          else Inr \<lparr> raw_data = place_pages data_pages (replicate 540 0x00),
                     uid = hex_upper uid_bytes,
                     character = character_name \<rparr>)"

text \<open>
  \<open>NFCWriter.load_amiibo\<close>. The file system is a function from paths to the text that
  \<open>open(...).read()\<close> returns, \<open>None\<close> where it raises. The state is the field
  \<open>current_amiibo\<close>, which is assigned only when the parser returns.
\<close>

definition basename :: "string \<Rightarrow> string" where
  "basename path = rev (takeWhile (\<lambda>c. c \<noteq> CHR ''/'') (rev path))"

definition nfc_load_amiibo ::
  "(string \<Rightarrow> string option) \<Rightarrow> string \<Rightarrow> amiibo option \<Rightarrow> bool \<times> amiibo option" where
  "nfc_load_amiibo files file_path nfc_current =
     (let filename = basename file_path;
          character_name = replace_str ''_'' '' '' (replace_str ''.nfc'' '''' filename)
      in case files file_path of
           None \<Rightarrow> (False, nfc_current)
         | Some content \<Rightarrow>
             if startswith content ''Filetype: Flipper'' then
               (case parse_flipper_format content character_name of
                  Inl e \<Rightarrow> (False, nfc_current)
                | Inr parsed \<Rightarrow> (True, Some parsed))
             else (False, nfc_current))"

subsection \<open>Write orchestrator: \<open>AmiiboWriter\<close>\<close>

text \<open>
  The state of an \<open>AmiiboWriter\<close>: its own \<open>current_amiibo\<close> and that of the \<open>NFCWriter\<close>
  it holds. Both are \<open>None\<close> after construction.
\<close>

record amiibo_writer =
  nfc_current_amiibo :: "amiibo option"
  current_amiibo :: "amiibo option"

definition new_amiibo_writer :: amiibo_writer where
  "new_amiibo_writer = \<lparr> nfc_current_amiibo = None, current_amiibo = None \<rparr>"

definition load_amiibo ::
  "(string \<Rightarrow> string option) \<Rightarrow> string \<Rightarrow> amiibo_writer \<Rightarrow> bool \<times> amiibo_writer" where
  "load_amiibo files file_path self =
     (case nfc_load_amiibo files file_path (nfc_current_amiibo self) of
        (True, cur) \<Rightarrow> (True, \<lparr> nfc_current_amiibo = cur, current_amiibo = cur \<rparr>)
      | (False, cur) \<Rightarrow> (False, self\<lparr> nfc_current_amiibo := cur \<rparr>))"

definition write_to_tag :: "bool \<Rightarrow> amiibo_writer \<Rightarrow> world \<Rightarrow> bool \<times> amiibo_writer \<times> world" where
  "write_to_tag has_callback self w =
     (case current_amiibo self of
        None \<Rightarrow> (False, self, w)
      | Some amiibo_data \<Rightarrow>
          (case write_amiibo amiibo_data has_callback w of
             (result, w') \<Rightarrow> (result, self, w')))"

subsection \<open>Derived notions used in the statements\<close>

text \<open>
  What \<open>detect_tag\<close> returns for the octets delivered by its read: \<open>None\<close> for an empty
  read or an empty response, else the result of the scan.
\<close>

definition detect_result :: "byte list \<Rightarrow> byte list option" where
  "detect_result delivered =
     (case strip_ready delivered of
        None \<Rightarrow> None
      | Some response \<Rightarrow> if response = [] then None else scan_response response)"

text \<open>
  A plausible target pattern at an offset of the scanned window, in the words of the
  specification: a number-of-targets octet in 1..4, five octets further a length octet in
  4..10, and that many octets after it.
\<close>

definition plausible_target :: "byte list \<Rightarrow> nat \<Rightarrow> bool" where
  "plausible_target response offset =
     (offset < min 10 (length response)
      \<and> 0 < response ! offset \<and> response ! offset < 5
      \<and> offset + 5 < length response
      \<and> 4 \<le> unat (response ! (offset + 5)) \<and> unat (response ! (offset + 5)) \<le> 10
      \<and> offset + 6 + unat (response ! (offset + 5)) \<le> length response)"

text \<open>The events of one successful page write with a progress callback.\<close>

definition page_events :: "byte list \<Rightarrow> int \<Rightarrow> event list" where
  "page_events raw page =
     [Bus_Write (page_frame raw page), Bus_Read 64, Progress (progress_percent page)]"

subsection \<open>Dump texts\<close>










subsection \<open>Concrete inputs\<close>

text \<open>
  A detection response that carries a 7-octet UID, a response with the success marker
  \<open>D5 41 00\<close> at offsets 6..8, one with status \<open>01\<close> in its place, and the detection
  response of scenario C.
\<close>

definition example_tag_response :: "byte list" where
  "example_tag_response =
     [0x01, 0x00, 0x00, 0xFF, 0x0C, 0xF4, 0xD5, 0x4B, 0x01, 0x01, 0x00, 0x44, 0x00, 0x07,
      0x04, 0xAA, 0xBB, 0xCC, 0xDD, 0xEE, 0xFF, 0x00, 0x00]"

definition example_ack_response :: "byte list" where
  "example_ack_response = [0x00, 0x00, 0x00, 0xFF, 0x03, 0xFD, 0xD5, 0x41, 0x00, 0xEA, 0x00]"

definition example_nak_response :: "byte list" where
  "example_nak_response = [0x00, 0x00, 0x00, 0xFF, 0x03, 0xFD, 0xD5, 0x41, 0x01, 0xE9, 0x00]"

definition scenario_C_response :: "byte list" where
  "scenario_C_response = [0x01, 0x00, 0x00, 0xFF, 0x02, 0xFE, 0xD5, 0x4B, 0x00, 0x00]"

text \<open>An image of 540 zero octets, and one that is too short for the page range.\<close>

definition blank_image :: amiibo where
  "blank_image =
     \<lparr> raw_data = replicate 540 0x00, uid = ''04AABBCCDDEEFF'', character = ''Blank'' \<rparr>"

definition short_image :: amiibo where
  "short_image =
     \<lparr> raw_data = replicate 519 0x00, uid = ''04AABBCCDDEEFF'', character = ''Short'' \<rparr>"

text \<open>
  A bus on which the tag is detected, the first \<open>k\<close> page writes are acknowledged and
  the next one is not; the callback never raises.
\<close>

definition example_world :: "nat \<Rightarrow> world" where
  "example_world k =
     \<lparr> write_script = replicate (k + 2) True,
       read_script = Some example_tag_response
                     # map Some (replicate k example_ack_response) @ [Some example_nak_response],
       callback_script = [],
       trace = [] \<rparr>"


definition negative_page_text :: string where
  "negative_page_text =
     ''Filetype: Flipper NFC device'' @ [CHR 0x0A] @
     ''UID: 04 AA BB CC DD EE FF'' @ [CHR 0x0A] @
     ''Page -1: 01 02 03 04'' @ [CHR 0x0A]"


definition writer_with_short_image :: amiibo_writer where
  "writer_with_short_image =
     \<lparr> nfc_current_amiibo = Some short_image, current_amiibo = Some short_image \<rparr>"


section \<open>Verification\<close>

lemmas pn532_consts =
  PN532_PREAMBLE_def PN532_STARTCODE1_def PN532_STARTCODE2_def PN532_POSTAMBLE_def
  PN532_HOSTTOPN532_def CMD_INLISTPASSIVETARGET_def CMD_INDATAEXCHANGE_def NTAG_CMD_WRITE_def

subsection \<open>Frame codec: checksums\<close>

lemma neg_and_255: "(NOT (x::int) + 1) AND 0xFF = (- x) mod 256"
proof -
  have "NOT x + 1 = - x"
    by (simp add: minus_eq_not_plus_1)
  moreover have "(y::int) AND 0xFF = y mod 256" for y
    using take_bit_eq_mask [of 8 y] by (simp add: take_bit_eq_mod mask_eq_exp_minus_1)
  ultimately show ?thesis
    by simp
qed

lemma build_command_layout:
  "build_command cmd data =
     [0, 0, 0xFF, int (length data) + 1, (- (int (length data) + 1)) mod 256, 0xD4, cmd]
     @ data @ [(- (0xD4 + cmd + sum_list data)) mod 256, 0]"
  by (simp add: build_command_def Let_def pn532_consts neg_and_255 add.assoc del: minus_add_distrib)

lemma length_build_command: "length (build_command cmd data) = length data + 9"
  by (simp add: build_command_layout)

lemma octets_detect_command:
  "list_all is_octet (build_command CMD_INLISTPASSIVETARGET [0x01, 0x00])"
  by (simp add: build_command_layout is_octet_def pn532_consts)

lemma octets_page_command:
  fixes d :: "byte list"
  assumes "0 \<le> p" "p < 256" "length d = 4"
  shows "list_all is_octet
           (build_command CMD_INDATAEXCHANGE ([0x01, NTAG_CMD_WRITE, p] @ map uint d))"
proof -
  have "is_octet (uint b)" for b :: byte
    using uint_bounded [of b] by (simp add: is_octet_def)
  then have "list_all is_octet (map uint d)"
    by (simp add: list_all_iff)
  then show ?thesis
    using assms by (simp add: build_command_layout is_octet_def pn532_consts)
qed

text \<open>
  Claim C1. For every command and every data sequence (in particular every command byte
  and every data sequence of at most 255 octets), the frame built by \<open>_build_command\<close>
  carries the length \<open>len(data) + 1\<close>, the length checksum \<open>(-length) mod 256\<close> and the
  data checksum \<open>(-(0xD4 + command + sum(data))) mod 256\<close>; and computing the two
  checksums again from the length, direction, command and data octets read back from the
  frame gives the two checksum octets of the frame.
\<close>

theorem build_command_checksums:
  "frame_length (build_command cmd data) = int (length data) + 1
   \<and> frame_lcs (build_command cmd data) = (- (int (length data) + 1)) mod 256
   \<and> frame_dcs (build_command cmd data) = (- (0xD4 + cmd + sum_list data)) mod 256
   \<and> frame_direction (build_command cmd data) = 0xD4
   \<and> frame_command (build_command cmd data) = cmd
   \<and> frame_data (build_command cmd data) = data
   \<and> length_checksum (frame_length (build_command cmd data)) = frame_lcs (build_command cmd data)
   \<and> data_checksum (frame_direction (build_command cmd data))
        (frame_command (build_command cmd data)) (frame_data (build_command cmd data))
      = frame_dcs (build_command cmd data)"
proof -
  let ?f = "build_command cmd data"
  have len: "frame_length ?f = int (length data) + 1"
    by (simp add: frame_length_def build_command_layout)
  have lcs: "frame_lcs ?f = (- (int (length data) + 1)) mod 256"
    by (simp add: frame_lcs_def build_command_layout del: minus_add_distrib)
  have dir: "frame_direction ?f = 0xD4"
    by (simp add: frame_direction_def build_command_layout)
  have cmd: "frame_command ?f = cmd"
    by (simp add: frame_command_def build_command_layout)
  have dat: "frame_data ?f = data"
    by (simp add: frame_data_def length_build_command) (simp add: build_command_layout)
  have "?f ! (length ?f - 2) = (?f ! (7 + length data))"
    by (simp add: length_build_command)
  also have "\<dots> = (- (0xD4 + cmd + sum_list data)) mod 256"
    by (simp add: build_command_layout nth_append del: minus_add_distrib)
  finally have dcs: "frame_dcs ?f = (- (0xD4 + cmd + sum_list data)) mod 256"
    by (simp add: frame_dcs_def)
  have rt1: "length_checksum (frame_length ?f) = frame_lcs ?f"
    by (simp only: len lcs length_checksum_def)
  have rt2: "data_checksum (frame_direction ?f) (frame_command ?f) (frame_data ?f) = frame_dcs ?f"
    by (simp only: dir cmd dat dcs data_checksum_def)
  from len lcs dcs dir cmd dat rt1 rt2 show ?thesis
    by blast
qed

theorem build_command_checksums_witness:
  "frame_lcs (build_command 0x40 [0x01, 0xA2, 0x04, 1, 2, 3, 4]) = 0xF8
   \<and> frame_dcs (build_command 0x40 [0x01, 0xA2, 0x04, 1, 2, 3, 4]) = 0x3B
   \<and> length_checksum 8 = 0xF8
   \<and> data_checksum 0xD4 0x40 [0x01, 0xA2, 0x04, 1, 2, 3, 4] = 0x3B"
  using build_command_checksums [of "0x40" "[0x01, 0xA2, 0x04, 1, 2, 3, 4]"]
  by (simp add: length_checksum_def data_checksum_def)

text \<open>
  Claim C2, as the specification states it: the frame for command \<open>0x4A\<close> with data
  \<open>[0x01, 0x00]\<close> would be \<open>00 00 FF 03 FD D4 4A 01 00 B0 00\<close>. The code does not build
  that frame: its data checksum octet is \<open>E1\<close>, not \<open>B0\<close>.
\<close>

theorem build_command_scenario_B_refuted:
  "build_command 0x4A [0x01, 0x00]
     \<noteq> [0x00, 0x00, 0xFF, 0x03, 0xFD, 0xD4, 0x4A, 0x01, 0x00, 0xB0, 0x00]"
  by (simp add: build_command_layout)

text \<open>
  Claim C2, amended: the frame for command \<open>0x4A\<close> with data \<open>[0x01, 0x00]\<close> is exactly
  the 11 octets \<open>00 00 FF 03 FD D4 4A 01 00 E1 00\<close>; \<open>E1\<close> is
  \<open>(-(0xD4 + 0x4A + 0x01 + 0x00)) mod 256\<close>.
\<close>

theorem build_command_scenario_B:
  "build_command 0x4A [0x01, 0x00]
     = [0x00, 0x00, 0xFF, 0x03, 0xFD, 0xD4, 0x4A, 0x01, 0x00, 0xE1, 0x00]
   \<and> length (build_command 0x4A [0x01, 0x00]) = 11
   \<and> data_checksum 0xD4 0x4A [0x01, 0x00] = 0xE1"
  by (simp add: build_command_layout data_checksum_def)

subsection \<open>Traces of the bus operations\<close>

lemma bus_writes_append: "bus_writes (xs @ ys) = bus_writes xs @ bus_writes ys"
  by (induction xs rule: bus_writes.induct) simp_all

lemma progress_values_append: "progress_values (xs @ ys) = progress_values xs @ progress_values ys"
  by (induction xs rule: progress_values.induct) simp_all

lemma Bus_Write_in_set: "Bus_Write f \<in> set es \<longleftrightarrow> f \<in> set (bus_writes es)"
  by (induction es rule: bus_writes.induct) auto

lemma issued_append: "trace w' = trace w @ evs \<Longrightarrow> issued w w' = evs"
  by (simp add: issued_def)

lemma getslice_nat: "getslice xs (int a) (int b) = take (b - a) (drop a xs)"
  by (cases "a < length xs") (auto simp: getslice_def py_index_def Let_def min_def)

lemma getslice_page:
  assumes "0 \<le> p" "4 * p + 4 \<le> int (length raw)"
  shows "getslice raw (p * 4) (p * 4 + 4) = take 4 (drop (nat (4 * p)) raw)"
    and "length (getslice raw (p * 4) (p * 4 + 4)) = 4"
proof -
  obtain n where n: "p = int n" using assms(1) by (metis nat_0_le)
  have "getslice raw (p * 4) (p * 4 + 4) = getslice raw (int (4 * n)) (int (4 * n + 4))"
    by (simp add: n mult.commute)
  also have "\<dots> = take 4 (drop (4 * n) raw)"
    by (simp only: getslice_nat) simp
  finally show g: "getslice raw (p * 4) (p * 4 + 4) = take 4 (drop (nat (4 * p)) raw)"
    by (simp add: n nat_mult_distrib)
  from assms(2) show "length (getslice raw (p * 4) (p * 4 + 4)) = 4"
    unfolding g by (simp add: n)
qed

lemma write_page_trace:
  assumes "length d = 4" "0 \<le> p" "p < 256"
  shows "\<exists>evs. trace (snd (write_page p d w)) = trace w @ evs
           \<and> bus_writes evs = [build_command CMD_INDATAEXCHANGE ([0x01, NTAG_CMD_WRITE, p] @ map uint d)]
           \<and> progress_values evs = []"
  using assms octets_page_command [of p d]
  by (auto simp: write_page_def send_command_def read_response_def i2c_write_def i2c_read_def Let_def
      split: list.splits option.splits bool.splits)

lemma call_progress_callback_trace:
  "trace (snd (call_progress_callback v w)) = trace w @ [Progress v]"
  by (auto simp: call_progress_callback_def split: list.splits)

lemma write_pages_trace:
  assumes "\<forall>p\<in>set ps. 0 \<le> p \<and> p < 256 \<and> 4 * p + 4 \<le> int (length raw)"
  shows "\<exists>evs k j. trace (snd (write_pages raw cb ps w)) = trace w @ evs
           \<and> k \<le> length ps \<and> j \<le> k
           \<and> bus_writes evs = map (page_frame raw) (take k ps)
           \<and> progress_values evs = (if cb then map progress_percent (take j ps) else [])"
  using assms
proof (induction ps arbitrary: w)
  case Nil
  show ?case by simp
next
  case (Cons p ps)
  let ?d = "getslice raw (p * 4) (p * 4 + 4)"
  have len: "length ?d = 4"
    using Cons.prems getslice_page(2) [of p raw] by simp
  obtain ok w1 where wp: "write_page p ?d w = (ok, w1)"
    by (cases "write_page p ?d w")
  have oct: "0 \<le> p" "p < 256"
    using Cons.prems by simp_all
  from write_page_trace [OF len oct, of w] wp obtain e1 where
    e1: "trace w1 = trace w @ e1" "bus_writes e1 = [page_frame raw p]" "progress_values e1 = []"
    by (auto simp: page_frame_def)
  have step: "write_pages raw cb (p # ps) w =
      (if ok then
         (if cb then (case call_progress_callback (progress_percent p) w1 of
                        (True, w2) \<Rightarrow> write_pages raw cb ps w2
                      | (False, w2) \<Rightarrow> (False, w2))
          else write_pages raw cb ps w1)
       else (False, w1))"
    using len wp by (simp add: Let_def)
  have rest: "\<forall>p\<in>set ps. 0 \<le> p \<and> p < 256 \<and> 4 * p + 4 \<le> int (length raw)"
    using Cons.prems by simp
  show ?case
  proof (cases ok)
    case False
    then have "trace (snd (write_pages raw cb (p # ps) w)) = trace w @ e1"
      using step e1 by simp
    moreover have "bus_writes e1 = map (page_frame raw) (take 1 (p # ps))"
      using e1 by simp
    moreover have "progress_values e1 = (if cb then map progress_percent (take 0 (p # ps)) else [])"
      using e1 by simp
    ultimately show ?thesis
      by (metis One_nat_def Suc_leI le0 length_Cons zero_less_Suc)
  next
    case True
    show ?thesis
    proof (cases cb)
      case False
      from Cons.IH [OF rest, of w1] False obtain evs k j where
        ih: "trace (snd (write_pages raw cb ps w1)) = trace w1 @ evs" "k \<le> length ps"
            "bus_writes evs = map (page_frame raw) (take k ps)" "progress_values evs = []"
        by auto
      have "trace (snd (write_pages raw cb (p # ps) w)) = trace w @ (e1 @ evs)"
        using step True False ih e1 by simp
      moreover have "bus_writes (e1 @ evs) = map (page_frame raw) (take (Suc k) (p # ps))"
        using e1 ih by (simp add: bus_writes_append)
      moreover have "progress_values (e1 @ evs) = (if cb then map progress_percent (take 0 (p # ps)) else [])"
        using e1 ih False by (simp add: progress_values_append)
      moreover have "Suc k \<le> length (p # ps)" "0 \<le> Suc k"
        using ih by simp_all
      ultimately show ?thesis
        by blast
    next
      case cbT: True
      obtain ret w2 where cp: "call_progress_callback (progress_percent p) w1 = (ret, w2)"
        by (cases "call_progress_callback (progress_percent p) w1")
      have t2: "trace w2 = trace w @ (e1 @ [Progress (progress_percent p)])"
        using call_progress_callback_trace [of "progress_percent p" w1] cp e1 by simp
      show ?thesis
      proof (cases ret)
        case False
        then have "trace (snd (write_pages raw cb (p # ps) w)) = trace w @ (e1 @ [Progress (progress_percent p)])"
          using step True cbT cp t2 by simp
        moreover have "bus_writes (e1 @ [Progress (progress_percent p)]) = map (page_frame raw) (take 1 (p # ps))"
          using e1 by (simp add: bus_writes_append)
        moreover have "progress_values (e1 @ [Progress (progress_percent p)])
             = (if cb then map progress_percent (take 1 (p # ps)) else [])"
          using e1 cbT by (simp add: progress_values_append)
        moreover have "(1::nat) \<le> length (p # ps)" "(1::nat) \<le> 1"
          by simp_all
        ultimately show ?thesis
          by blast
      next
        case retT: True
        from Cons.IH [OF rest, of w2] cbT obtain evs k j where
          ih: "trace (snd (write_pages raw cb ps w2)) = trace w2 @ evs" "k \<le> length ps" "j \<le> k"
              "bus_writes evs = map (page_frame raw) (take k ps)"
              "progress_values evs = map progress_percent (take j ps)"
          by auto
        let ?evs = "e1 @ [Progress (progress_percent p)] @ evs"
        have "trace (snd (write_pages raw cb (p # ps) w)) = trace w @ ?evs"
          using step True cbT cp retT ih t2 by simp
        moreover have "bus_writes ?evs = map (page_frame raw) (take (Suc k) (p # ps))"
          using e1 ih by (simp add: bus_writes_append)
        moreover have "progress_values ?evs = (if cb then map progress_percent (take (Suc j) (p # ps)) else [])"
          using e1 ih cbT by (simp add: progress_values_append)
        moreover have "Suc k \<le> length (p # ps)" "Suc j \<le> Suc k"
          using ih by simp_all
        ultimately show ?thesis
          by blast
      qed
    qed
  qed
qed

lemma detect_tag_trace:
  "\<exists>evs. trace (snd (detect_tag w)) = trace w @ evs
         \<and> bus_writes evs = [detect_frame] \<and> progress_values evs = []"
  by (auto simp: detect_tag_def detect_frame_def send_command_def read_response_def
      i2c_write_def i2c_read_def Let_def octets_detect_command
      split: list.splits option.splits bool.splits)

subsection \<open>What \<open>write_amiibo\<close> hands to the bus and to the callback\<close>

lemma data_pages_valid:
  assumes "540 \<le> length raw" "p \<in> set data_page_range"
  shows "0 \<le> p \<and> p < 256 \<and> 4 * p + 4 \<le> int (length raw)"
  using assms by (simp only: data_page_range_def set_upto atLeastAtMost_iff) simp

lemma length_data_pages: "length data_page_range = 126"
  by (simp add: data_page_range_def length_upto del: upto.simps)

lemma set_data_page_range: "p \<in> set data_page_range \<longleftrightarrow> 4 \<le> p \<and> p \<le> 129"
  by (simp only: data_page_range_def set_upto atLeastAtMost_iff)

lemma sorted_data_page_range: "sorted data_page_range"
  by (simp only: data_page_range_def sorted_upto)

lemma data_page_range_nth: "k < 126 \<Longrightarrow> data_page_range ! k = 4 + int k"
  by (simp only: data_page_range_def) (subst nth_upto, simp_all)

lemma data_page_range_split:
  assumes "k < 126"
  shows "data_page_range = take k data_page_range @ (4 + int k) # drop (Suc k) data_page_range"
  using id_take_nth_drop [of k data_page_range] assms
  by (simp add: length_data_pages data_page_range_nth)

lemma write_amiibo_trace:
  "\<exists>evs k j. trace (snd (write_amiibo a cb w)) = trace w @ evs
      \<and> k \<le> 126 \<and> j \<le> k
      \<and> (bus_writes evs = [] \<or> bus_writes evs = detect_frame # map (page_frame (raw_data a)) (take k data_page_range))
      \<and> progress_values evs = (if cb then map progress_percent (take j data_page_range) else [])"
proof (cases "length (raw_data a) < 540")
  case True
  then have "trace (snd (write_amiibo a cb w)) = trace w @ []"
    by (simp add: write_amiibo_def)
  moreover have "progress_values [] = (if cb then map progress_percent (take 0 data_page_range) else [])"
    by simp
  ultimately show ?thesis
    by (metis bus_writes.simps(1) le0)
next
  case False
  then have big: "540 \<le> length (raw_data a)" by simp
  obtain found w1 where dt: "detect_tag w = (found, w1)"
    by (cases "detect_tag w")
  from detect_tag_trace [of w] dt obtain e0 where
    e0: "trace w1 = trace w @ e0" "bus_writes e0 = [detect_frame]" "progress_values e0 = []"
    by auto
  show ?thesis
  proof (cases "found = None \<or> found = Some []")
    case True
    then have "trace (snd (write_amiibo a cb w)) = trace w @ e0"
      using False dt e0 by (auto simp: write_amiibo_def)
    moreover have "bus_writes e0 = detect_frame # map (page_frame (raw_data a)) (take 0 data_page_range)"
      using e0 by simp
    moreover have "progress_values e0 = (if cb then map progress_percent (take 0 data_page_range) else [])"
      using e0 by simp
    ultimately show ?thesis
      by (metis le0)
  next
    case found: False
    then have run: "write_amiibo a cb w = write_pages (raw_data a) cb data_page_range w1"
      using False dt by (cases found) (auto simp: write_amiibo_def)
    have valid: "\<forall>p\<in>set data_page_range. 0 \<le> p \<and> p < 256 \<and> 4 * p + 4 \<le> int (length (raw_data a))"
      using data_pages_valid [OF big] by blast
    from write_pages_trace [OF valid, of cb w1] obtain evs k j where
      ev: "trace (snd (write_pages (raw_data a) cb data_page_range w1)) = trace w1 @ evs"
          "k \<le> length data_page_range" "j \<le> k"
          "bus_writes evs = map (page_frame (raw_data a)) (take k data_page_range)"
          "progress_values evs = (if cb then map progress_percent (take j data_page_range) else [])"
      by blast
    have "trace (snd (write_amiibo a cb w)) = trace w @ (e0 @ evs)"
      using run ev e0 by simp
    moreover have "bus_writes (e0 @ evs) = detect_frame # map (page_frame (raw_data a)) (take k data_page_range)"
      using e0 ev by (simp add: bus_writes_append)
    moreover have "progress_values (e0 @ evs) = (if cb then map progress_percent (take j data_page_range) else [])"
      using e0 ev by (simp add: progress_values_append)
    moreover have "k \<le> 126"
      using ev(2) by (simp only: length_data_pages)
    ultimately show ?thesis
      using ev(3) by blast
  qed
qed

lemma page_write_target_page_frame: "page_write_target (page_frame raw p) = Some p"
  by (simp add: page_write_target_def page_frame_def build_command_layout pn532_consts)

lemma page_write_target_detect_frame: "page_write_target detect_frame = None"
  by (simp add: page_write_target_def detect_frame_def build_command_layout pn532_consts)

lemma issued_write_cases:
  assumes "Bus_Write f \<in> set (issued w (snd (write_amiibo a cb w)))"
  shows "f = detect_frame \<or> (\<exists>p\<in>set data_page_range. f = page_frame (raw_data a) p)"
proof -
  from write_amiibo_trace [of a cb w] obtain evs k where
    ev: "trace (snd (write_amiibo a cb w)) = trace w @ evs"
        "bus_writes evs = [] \<or> bus_writes evs = detect_frame # map (page_frame (raw_data a)) (take k data_page_range)"
    by blast
  from assms ev(1) have "f \<in> set (bus_writes evs)"
    by (simp add: issued_append Bus_Write_in_set)
  with ev(2) have "f = detect_frame \<or> f \<in> page_frame (raw_data a) ` set (take k data_page_range)"
    by auto
  then show ?thesis
    by (auto dest: in_set_takeD)
qed

lemma progress_percent_mono: "p \<le> q \<Longrightarrow> progress_percent p \<le> progress_percent q"
  by (simp add: progress_percent_def zdiv_mono1)

lemma sorted_progress: "sorted (map progress_percent (take j data_page_range))"
proof -
  have "sorted (take j data_page_range)"
    by (rule sorted_wrt_take) (rule sorted_data_page_range)
  then show ?thesis
    by (simp only: sorted_map) (erule sorted_wrt_mono_rel [rotated], simp add: progress_percent_mono)
qed

subsection \<open>Runs on a bus that answers as expected\<close>

lemma detect_tag_run:
  assumes "write_script w = True # ws" "read_script w = Some delivered # rs"
  shows "detect_tag w = (detect_result delivered,
           w\<lparr>write_script := ws, read_script := rs,
             trace := trace w @ [Bus_Write detect_frame, Bus_Read 64]\<rparr>)"
  using assms
  by (auto simp: detect_tag_def detect_result_def detect_frame_def send_command_def
      read_response_def i2c_write_def i2c_read_def Let_def octets_detect_command
      split: option.splits)

lemma write_page_run:
  assumes "length d = 4" "write_script w = True # ws" "read_script w = Some delivered # rs"
    and "0 \<le> p" "p < 256"
  shows "write_page p d w = (read_succeeds delivered,
           w\<lparr>write_script := ws, read_script := rs,
             trace := trace w @ [Bus_Write (build_command CMD_INDATAEXCHANGE
                        ([0x01, NTAG_CMD_WRITE, p] @ map uint d)), Bus_Read 64]\<rparr>)"
  using assms octets_page_command [of p d]
  by (auto simp: write_page_def read_succeeds_def send_command_def
      read_response_def i2c_write_def i2c_read_def Let_def split: option.splits)

lemma call_progress_callback_returns:
  assumes "\<forall>b\<in>set (callback_script w). b"
  shows "call_progress_callback v w =
           (True, w\<lparr>callback_script := drop 1 (callback_script w),
                    trace := trace w @ [Progress v]\<rparr>)"
  using assms by (cases "callback_script w") (auto simp: call_progress_callback_def)

lemma write_pages_step_ok:
  assumes "0 \<le> p" "4 * p + 4 \<le> int (length raw)"
    and "write_script w = True # ws" "read_script w = Some delivered # rs"
    and "read_succeeds delivered" "\<forall>b\<in>set (callback_script w). b"
    and "p < 256"
  shows "write_pages raw True (p # ps) w =
           write_pages raw True ps
             (w\<lparr>write_script := ws, read_script := rs,
                callback_script := drop 1 (callback_script w),
                trace := trace w @ page_events raw p\<rparr>)"
proof -
  let ?d = "getslice raw (p * 4) (p * 4 + 4)"
  have len: "length ?d = 4"
    using assms(1,2) by (rule getslice_page(2))
  let ?w1 = "w\<lparr>write_script := ws, read_script := rs,
               trace := trace w @ [Bus_Write (page_frame raw p), Bus_Read 64]\<rparr>"
  have wp: "write_page p ?d w = (True, ?w1)"
    using write_page_run [OF len assms(3,4,1,7)] assms(5) by (simp add: page_frame_def)
  have cb: "\<forall>b\<in>set (callback_script ?w1). b"
    using assms(6) by simp
  show ?thesis
    using len wp call_progress_callback_returns [OF cb, of "progress_percent p"]
    by (simp add: Let_def page_events_def)
qed

lemma write_pages_step_fail:
  assumes "0 \<le> p" "4 * p + 4 \<le> int (length raw)"
    and "write_script w = True # ws" "read_script w = Some delivered # rs"
    and "\<not> read_succeeds delivered"
    and "p < 256"
  shows "write_pages raw cb (p # ps) w =
           (False, w\<lparr>write_script := ws, read_script := rs,
                     trace := trace w @ [Bus_Write (page_frame raw p), Bus_Read 64]\<rparr>)"
proof -
  let ?d = "getslice raw (p * 4) (p * 4 + 4)"
  have len: "length ?d = 4"
    using assms(1,2) by (rule getslice_page(2))
  show ?thesis
    using len write_page_run [OF len assms(3,4,1,6)] assms(5)
    by (simp add: Let_def page_frame_def)
qed

lemma write_pages_ok_run:
  assumes "\<forall>p\<in>set ps. 0 \<le> p \<and> p < 256 \<and> 4 * p + 4 \<le> int (length raw)"
    and "write_script w = replicate (length ps) True @ ws"
    and "read_script w = map Some oks @ rs"
    and "length oks = length ps"
    and "\<forall>r\<in>set oks. read_succeeds r"
    and "\<forall>b\<in>set (callback_script w). b"
  shows "write_pages raw True (ps @ qs) w =
           write_pages raw True qs
             (w\<lparr>write_script := ws, read_script := rs,
                callback_script := drop (length ps) (callback_script w),
                trace := trace w @ concat (map (page_events raw) ps)\<rparr>)"
  using assms
proof (induction ps arbitrary: w oks)
  case Nil
  then have "write_script w = ws" "read_script w = rs"
    by simp_all
  then have "w\<lparr>write_script := ws, read_script := rs\<rparr> = w"
    by auto
  then show ?case
    by simp
next
  case (Cons p ps)
  from Cons.prems(4) obtain r oks' where oks: "oks = r # oks'" "length oks' = length ps"
    by (cases oks) auto
  let ?w1 = "w\<lparr>write_script := replicate (length ps) True @ ws, read_script := map Some oks' @ rs,
                callback_script := drop 1 (callback_script w),
                trace := trace w @ page_events raw p\<rparr>"
  have step: "write_pages raw True (p # (ps @ qs)) w = write_pages raw True (ps @ qs) ?w1"
    using Cons.prems oks
      write_pages_step_ok [of p raw w "replicate (length ps) True @ ws" r "map Some oks' @ rs" "ps @ qs"]
    by simp
  have cb1: "\<forall>b\<in>set (callback_script ?w1). b"
    using Cons.prems(6) by (auto dest: in_set_dropD)
  have "write_pages raw True (ps @ qs) ?w1 =
          write_pages raw True qs
            (?w1\<lparr>write_script := ws, read_script := rs,
                  callback_script := drop (length ps) (callback_script ?w1),
                  trace := trace ?w1 @ concat (map (page_events raw) ps)\<rparr>)"
  proof (rule Cons.IH [where oks = oks'])
    show "\<forall>p\<in>set ps. 0 \<le> p \<and> p < 256 \<and> 4 * p + 4 \<le> int (length raw)"
      using Cons.prems(1) by simp
    show "write_script ?w1 = replicate (length ps) True @ ws" by simp
    show "read_script ?w1 = map Some oks' @ rs" by simp
    show "length oks' = length ps" by (rule oks(2))
    show "\<forall>r\<in>set oks'. read_succeeds r" using Cons.prems(5) oks(1) by simp
    show "\<forall>b\<in>set (callback_script ?w1). b" by (rule cb1)
  qed
  with step show ?case
    by simp
qed

lemma scan_offsets_length:
  "scan_offsets response offsets = Some found \<Longrightarrow> 4 \<le> length found"
  by (induction offsets) (auto simp: Let_def split: if_splits)

lemma detect_result_nonempty: "detect_result delivered = Some found \<Longrightarrow> found \<noteq> []"
  by (auto simp: detect_result_def scan_response_def split: option.splits if_splits
      dest!: scan_offsets_length)

lemma fails_after_acknowledged_pages:
  assumes "540 \<le> length (raw_data a)"
    and "write_script w = replicate (k + 2) True @ ws"
    and "read_script w = Some delivered # map Some oks @ Some bad # rs"
    and "detect_result delivered = Some found"
    and "length oks = k" "k < 126"
    and "\<forall>r\<in>set oks. read_succeeds r"
    and "\<not> read_succeeds bad"
    and "\<forall>b\<in>set (callback_script w). b"
  shows "write_amiibo a True w =
           (False, w\<lparr>write_script := ws, read_script := rs,
                     callback_script := drop k (callback_script w),
                     trace := trace w @ [Bus_Write detect_frame, Bus_Read 64]
                       @ concat (map (page_events (raw_data a)) (take k data_page_range))
                       @ [Bus_Write (page_frame (raw_data a) (4 + int k)), Bus_Read 64]\<rparr>)"
proof -
  let ?raw = "raw_data a"
  let ?w1 = "w\<lparr>write_script := replicate (k + 1) True @ ws,
               read_script := map Some oks @ Some bad # rs,
               trace := trace w @ [Bus_Write detect_frame, Bus_Read 64]\<rparr>"
  have dt: "detect_tag w = (Some found, ?w1)"
    using detect_tag_run [of w "replicate (k + 1) True @ ws" delivered "map Some oks @ Some bad # rs"]
      assms(2,3,4) by simp
  have ne: "found \<noteq> []"
    using assms(4) by (rule detect_result_nonempty)
  have run: "write_amiibo a True w = write_pages ?raw True data_page_range ?w1"
    using assms(1) dt ne by (simp add: write_amiibo_def)
  let ?ps = "take k data_page_range"
  let ?qs = "(4 + int k) # drop (Suc k) data_page_range"
  have lps: "length ?ps = k"
    using assms(6) by (simp add: length_data_pages)
  have valid: "\<forall>p\<in>set ?ps. 0 \<le> p \<and> p < 256 \<and> 4 * p + 4 \<le> int (length ?raw)"
    using data_pages_valid [OF assms(1)] by (auto dest: in_set_takeD)
  let ?w2 = "?w1\<lparr>write_script := True # ws, read_script := Some bad # rs,
                callback_script := drop (length ?ps) (callback_script ?w1),
                trace := trace ?w1 @ concat (map (page_events ?raw) ?ps)\<rparr>"
  have ok: "write_pages ?raw True (?ps @ ?qs) ?w1 = write_pages ?raw True ?qs ?w2"
  proof (rule write_pages_ok_run [where oks = oks])
    show "\<forall>p\<in>set ?ps. 0 \<le> p \<and> p < 256 \<and> 4 * p + 4 \<le> int (length ?raw)" by (rule valid)
    show "write_script ?w1 = replicate (length ?ps) True @ True # ws"
      by (simp only: lps) (simp add: replicate_append_same)
    show "read_script ?w1 = map Some oks @ Some bad # rs" by simp
    show "length oks = length ?ps" using assms(5) lps by simp
    show "\<forall>r\<in>set oks. read_succeeds r" by (rule assms(7))
    show "\<forall>b\<in>set (callback_script ?w1). b" using assms(9) by simp
  qed
  have p50: "0 \<le> 4 + int k" "4 * (4 + int k) + 4 \<le> int (length ?raw)" "4 + int k < 256"
    using assms(1,6) by simp_all
  have fail: "write_pages ?raw True ?qs ?w2 =
      (False, ?w2\<lparr>write_script := ws, read_script := rs,
                 trace := trace ?w2 @ [Bus_Write (page_frame ?raw (4 + int k)), Bus_Read 64]\<rparr>)"
  proof (rule write_pages_step_fail [where delivered = bad])
    show "0 \<le> 4 + int k" "4 * (4 + int k) + 4 \<le> int (length ?raw)" "4 + int k < 256"
      by (rule p50)+
    show "write_script ?w2 = True # ws" by simp
    show "read_script ?w2 = Some bad # rs" by simp
    show "\<not> read_succeeds bad" by (rule assms(8))
  qed
  have "write_amiibo a True w = write_pages ?raw True (?ps @ ?qs) ?w1"
    using run data_page_range_split [OF assms(6)] by (simp del: append_take_drop_id)
  also note ok
  also note fail
  finally show ?thesis
    using lps by simp
qed

subsection \<open>Runs on the example bus\<close>

lemma detect_result_example:
  "detect_result example_tag_response = Some [0x04, 0xAA, 0xBB, 0xCC, 0xDD, 0xEE, 0xFF]"
  by code_simp

lemma read_succeeds_ack: "read_succeeds example_ack_response"
  by code_simp

lemma read_succeeds_nak: "\<not> read_succeeds example_nak_response"
  by code_simp

lemma bus_writes_page_events:
  "bus_writes (concat (map (page_events raw) ps)) = map (page_frame raw) ps"
  by (induction ps) (simp_all add: page_events_def)

lemma progress_values_page_events:
  "progress_values (concat (map (page_events raw) ps)) = map progress_percent ps"
  by (induction ps) (simp_all add: page_events_def)

lemma example_run:
  assumes "k < 126"
  shows "write_amiibo blank_image True (example_world k) =
           (False, \<lparr> write_script = [], read_script = [], callback_script = [],
                     trace = [Bus_Write detect_frame, Bus_Read 64]
                       @ concat (map (page_events (raw_data blank_image)) (take k data_page_range))
                       @ [Bus_Write (page_frame (raw_data blank_image) (4 + int k)), Bus_Read 64] \<rparr>)"
proof -
  have "write_amiibo blank_image True (example_world k) =
      (False, (example_world k)\<lparr>write_script := [], read_script := [],
                 callback_script := drop k (callback_script (example_world k)),
                 trace := trace (example_world k) @ [Bus_Write detect_frame, Bus_Read 64]
                   @ concat (map (page_events (raw_data blank_image)) (take k data_page_range))
                   @ [Bus_Write (page_frame (raw_data blank_image) (4 + int k)), Bus_Read 64]\<rparr>)"
  proof (rule fails_after_acknowledged_pages [where oks = "replicate k example_ack_response"
        and bad = example_nak_response and delivered = example_tag_response])
    show "540 \<le> length (raw_data blank_image)" by (simp add: blank_image_def)
    show "write_script (example_world k) = replicate (k + 2) True @ []"
      by (simp add: example_world_def)
    show "read_script (example_world k) = Some example_tag_response
            # map Some (replicate k example_ack_response) @ Some example_nak_response # []"
      by (simp add: example_world_def)
    show "detect_result example_tag_response = Some [0x04, 0xAA, 0xBB, 0xCC, 0xDD, 0xEE, 0xFF]"
      by (rule detect_result_example)
    show "length (replicate k example_ack_response) = k" by simp
    show "k < 126" by (rule assms)
    show "\<forall>r\<in>set (replicate k example_ack_response). read_succeeds r"
      by (simp add: read_succeeds_ack)
    show "\<not> read_succeeds example_nak_response" by (rule read_succeeds_nak)
    show "\<forall>b\<in>set (callback_script (example_world k)). b" by (simp add: example_world_def)
  qed
  then show ?thesis
    by (simp add: example_world_def)
qed

lemma example_issued:
  assumes "k < 126"
  shows "issued (example_world k) (snd (write_amiibo blank_image True (example_world k))) =
           [Bus_Write detect_frame, Bus_Read 64]
             @ concat (map (page_events (raw_data blank_image)) (take k data_page_range))
             @ [Bus_Write (page_frame (raw_data blank_image) (4 + int k)), Bus_Read 64]"
  by (simp add: example_run [OF assms] issued_def) (simp add: example_world_def)

lemma take_data_page_range_2: "take 2 data_page_range = [4, 5]"
  by (simp add: data_page_range_def)

lemma take_data_page_range_46: "take 46 data_page_range = [4 .. 49]"
  by (simp add: data_page_range_def)

subsection \<open>The page write engine\<close>

text \<open>
  Claim C3. Whatever the image, the bus and the callback do, every frame that
  \<open>write_amiibo\<close> hands to the bus is the detection command or the single-page write of
  a page in \<open>[4, 130)\<close>; so every single-page write on the bus targets a page in
  \<open>[4, 130)\<close>: never the UID pages 0..2, never the lock and configuration pages
  130..134.
\<close>

theorem write_amiibo_targets_data_pages_only:
  assumes "Bus_Write f \<in> set (issued w (snd (write_amiibo a cb w)))"
  shows "(f = detect_frame \<or> (\<exists>q. 4 \<le> q \<and> q < 130 \<and> f = page_frame (raw_data a) q))
     \<and> (page_write_target f = Some p \<longrightarrow>
          4 \<le> p \<and> p < 130 \<and> p \<notin> {0, 1, 2} \<and> p \<notin> {130 .. 134})"
proof -
  from issued_write_cases [OF assms] have
    cases: "f = detect_frame \<or> (\<exists>q. 4 \<le> q \<and> q < 130 \<and> f = page_frame (raw_data a) q)"
    by (auto simp: set_data_page_range)
  have "4 \<le> p \<and> p < 130" if "page_write_target f = Some p"
    using cases that
    by (auto simp: page_write_target_detect_frame page_write_target_page_frame)
  with cases show ?thesis
    by auto
qed

text \<open>Claim C3, at a concrete run: the tag is detected and the write to page 4 is issued.\<close>

theorem write_amiibo_targets_data_pages_only_witness:
  "Bus_Write (page_frame (raw_data blank_image) 4)
     \<in> set (issued (example_world 0) (snd (write_amiibo blank_image True (example_world 0))))
   \<and> page_write_target (page_frame (raw_data blank_image) 4) = Some 4
   \<and> (4::int) \<le> 4 \<and> (4::int) < 130 \<and> (4::int) \<notin> {0, 1, 2} \<and> (4::int) \<notin> {130 .. 134}"
proof -
  have mem: "Bus_Write (page_frame (raw_data blank_image) 4)
     \<in> set (issued (example_world 0) (snd (write_amiibo blank_image True (example_world 0))))"
    using example_issued [of 0] by simp
  have tgt: "page_write_target (page_frame (raw_data blank_image) 4) = Some 4"
    by (rule page_write_target_page_frame)
  from write_amiibo_targets_data_pages_only [OF mem, of 4] mem tgt show ?thesis
    by simp
qed

text \<open>
  Claim C4, as the specification states it, would have an image shorter than the page
  range requires written with a zero-padded last page. The code rejects such an image: an
  image of 519 octets (the range needs 520) gives \<open>False\<close> and nothing reaches the bus,
  on a bus that would acknowledge every page.
\<close>

theorem short_image_is_rejected:
  "fst (write_amiibo short_image True (example_world 125)) = False
   \<and> issued (example_world 125) (snd (write_amiibo short_image True (example_world 125))) = []"
  by (simp add: write_amiibo_def short_image_def issued_def)

text \<open>
  Claim C4, amended: an image shorter than 540 octets is rejected before any bus
  exchange (\<open>write_amiibo\<close> returns \<open>False\<close> and the world is unchanged); for an image
  that is accepted, every page write issued carries exactly the 4 octets of the image at
  \<open>page * 4\<close>, so no slice is short and nothing is padded.
\<close>

theorem write_amiibo_rejects_short_image_writes_whole_pages:
  "(length (raw_data a) < 540 \<longrightarrow> write_amiibo a cb w = (False, w))
   \<and> (Bus_Write f \<in> set (issued w (snd (write_amiibo a cb w))) \<and> page_write_target f = Some p \<longrightarrow>
        540 \<le> length (raw_data a)
        \<and> length (getslice (raw_data a) (p * 4) (p * 4 + 4)) = 4
        \<and> getslice (raw_data a) (p * 4) (p * 4 + 4) = take 4 (drop (nat (4 * p)) (raw_data a))
        \<and> f = build_command CMD_INDATAEXCHANGE
                ([0x01, NTAG_CMD_WRITE, p] @ map uint (take 4 (drop (nat (4 * p)) (raw_data a)))))"
proof (intro conjI impI)
  assume "length (raw_data a) < 540"
  then show "write_amiibo a cb w = (False, w)"
    by (simp add: write_amiibo_def)
next
  assume h: "Bus_Write f \<in> set (issued w (snd (write_amiibo a cb w))) \<and> page_write_target f = Some p"
  show big: "540 \<le> length (raw_data a)"
  proof (rule ccontr)
    assume "\<not> 540 \<le> length (raw_data a)"
    then have "write_amiibo a cb w = (False, w)"
      by (simp add: write_amiibo_def)
    with h show False
      by (simp add: issued_def)
  qed
  from h issued_write_cases [of f w a cb] obtain q where
    q: "q \<in> set data_page_range" "f = page_frame (raw_data a) q"
    by (auto simp: page_write_target_detect_frame)
  with h have pq: "p = q"
    by (simp add: page_write_target_page_frame)
  have valid: "0 \<le> p" "4 * p + 4 \<le> int (length (raw_data a))"
    using data_pages_valid [OF big q(1)] pq by simp_all
  show "length (getslice (raw_data a) (p * 4) (p * 4 + 4)) = 4"
    using valid by (rule getslice_page(2))
  show g: "getslice (raw_data a) (p * 4) (p * 4 + 4) = take 4 (drop (nat (4 * p)) (raw_data a))"
    using valid by (rule getslice_page(1))
  show "f = build_command CMD_INDATAEXCHANGE
                ([0x01, NTAG_CMD_WRITE, p] @ map uint (take 4 (drop (nat (4 * p)) (raw_data a))))"
    using q(2) pq g by (simp add: page_frame_def)
qed

text \<open>Claim C4, amended, at the short image and at the first page of a blank image.\<close>

theorem write_amiibo_rejects_short_image_writes_whole_pages_witness:
  "length (raw_data short_image) < 540
   \<and> write_amiibo short_image True (example_world 125) = (False, example_world 125)
   \<and> Bus_Write (page_frame (raw_data blank_image) 4)
       \<in> set (issued (example_world 0) (snd (write_amiibo blank_image True (example_world 0))))
   \<and> page_write_target (page_frame (raw_data blank_image) 4) = Some 4
   \<and> length (getslice (raw_data blank_image) (4 * 4) (4 * 4 + 4)) = 4
   \<and> page_frame (raw_data blank_image) 4 =
        build_command CMD_INDATAEXCHANGE
          ([0x01, NTAG_CMD_WRITE, 4] @ map uint (take 4 (drop (nat (4 * 4)) (raw_data blank_image))))"
proof -
  have short: "length (raw_data short_image) < 540"
    by (simp add: short_image_def)
  have mem: "Bus_Write (page_frame (raw_data blank_image) 4)
     \<in> set (issued (example_world 0) (snd (write_amiibo blank_image True (example_world 0))))"
    using example_issued [of 0] by simp
  have tgt: "page_write_target (page_frame (raw_data blank_image) 4) = Some 4"
    by (rule page_write_target_page_frame)
  note thm1 = write_amiibo_rejects_short_image_writes_whole_pages
    [of short_image True "example_world 125" "page_frame (raw_data blank_image) 4" 4]
  note thm2 = write_amiibo_rejects_short_image_writes_whole_pages
    [of blank_image True "example_world 0" "page_frame (raw_data blank_image) 4" 4]
  from thm1 short have "write_amiibo short_image True (example_world 125) = (False, example_world 125)"
    by blast
  moreover from thm2 mem tgt have
    "length (getslice (raw_data blank_image) (4 * 4) (4 * 4 + 4)) = 4"
    "page_frame (raw_data blank_image) 4 =
        build_command CMD_INDATAEXCHANGE
          ([0x01, NTAG_CMD_WRITE, 4] @ map uint (take 4 (drop (nat (4 * 4)) (raw_data blank_image))))"
    by blast+
  ultimately show ?thesis
    using short mem tgt by blast
qed

text \<open>
  Claim C5, as the specification states it, has the last progress value equal to
  \<open>round(46/126*100) = 37\<close>. On a run where pages 4..49 are acknowledged and page 50 is
  not, the callback is invoked 46 times and the last value is 35.
\<close>

theorem scenario_D_last_progress_is_not_rounded:
  "fst (write_amiibo blank_image True (example_world 46)) = False
   \<and> page_write_target (last (bus_writes
        (issued (example_world 46) (snd (write_amiibo blank_image True (example_world 46)))))) = Some 50
   \<and> length (progress_values
        (issued (example_world 46) (snd (write_amiibo blank_image True (example_world 46))))) = 46
   \<and> last (progress_values
        (issued (example_world 46) (snd (write_amiibo blank_image True (example_world 46))))) = 35
   \<and> round (46 / 126 * 100 :: real) = 37
   \<and> last (progress_values
        (issued (example_world 46) (snd (write_amiibo blank_image True (example_world 46)))))
      \<noteq> round (46 / 126 * 100 :: real)"
proof -
  let ?ev = "issued (example_world 46) (snd (write_amiibo blank_image True (example_world 46)))"
  have ev: "?ev = [Bus_Write detect_frame, Bus_Read 64]
             @ concat (map (page_events (raw_data blank_image)) [4 .. 49])
             @ [Bus_Write (page_frame (raw_data blank_image) 50), Bus_Read 64]"
    using example_issued [of 46] by (simp add: take_data_page_range_46)
  have r: "fst (write_amiibo blank_image True (example_world 46)) = False"
    by (simp add: example_run)
  have pv: "progress_values ?ev = map progress_percent [4 .. 49]"
    by (simp only: ev progress_values_append progress_values_page_events) simp
  have bw: "last (bus_writes ?ev) = page_frame (raw_data blank_image) 50"
    by (simp only: ev bus_writes_append bus_writes_page_events) simp
  have l: "last (map progress_percent [4 .. 49]) = 35"
    by (simp add: progress_percent_def last_map)
  have n: "length (map progress_percent [4 .. 49]) = 46"
    by (simp del: upto.simps)
  have rd: "round (46 / 126 * 100 :: real) = 37"
    by (simp add: round_def)
  show ?thesis
    unfolding pv bw using r l n rd by (simp add: page_write_target_page_frame del: upto.simps)
qed

text \<open>
  Claim C5, amended: when the tag is detected, the writes of pages 4..49 are
  acknowledged, the response to the write of page 50 lacks the success marker and the
  callback does not raise, \<open>write_amiibo\<close> returns \<open>False\<close>, the last frame on the bus
  is the write of page 50, and the callback has been invoked exactly 46 times, with
  \<open>int((page - 4) / 126 * 100)\<close> for the pages 4..49; the last value is that of page 49,
  which is 35.
\<close>

theorem write_amiibo_fails_at_page_50:
  assumes "540 \<le> length (raw_data a)"
    and "write_script w = replicate 48 True @ ws"
    and "read_script w = Some delivered # map Some oks @ Some bad # rs"
    and "detect_result delivered = Some found"
    and "length oks = 46"
    and "\<forall>r\<in>set oks. read_succeeds r"
    and "\<not> read_succeeds bad"
    and "\<forall>b\<in>set (callback_script w). b"
  shows "fst (write_amiibo a True w) = False
     \<and> last (bus_writes (issued w (snd (write_amiibo a True w)))) = page_frame (raw_data a) 50
     \<and> page_write_target (last (bus_writes (issued w (snd (write_amiibo a True w))))) = Some 50
     \<and> progress_values (issued w (snd (write_amiibo a True w))) = map progress_percent [4 .. 49]
     \<and> length (progress_values (issued w (snd (write_amiibo a True w)))) = 46
     \<and> last (progress_values (issued w (snd (write_amiibo a True w)))) = 35
     \<and> progress_percent 49 = 35"
proof -
  have run: "write_amiibo a True w =
           (False, w\<lparr>write_script := ws, read_script := rs,
                     callback_script := drop 46 (callback_script w),
                     trace := trace w @ [Bus_Write detect_frame, Bus_Read 64]
                       @ concat (map (page_events (raw_data a)) (take 46 data_page_range))
                       @ [Bus_Write (page_frame (raw_data a) (4 + int 46)), Bus_Read 64]\<rparr>)"
    using assms by (intro fails_after_acknowledged_pages [where oks = oks and bad = bad and delivered = delivered
          and found = found]) simp_all
  let ?ev = "issued w (snd (write_amiibo a True w))"
  have ev: "?ev = [Bus_Write detect_frame, Bus_Read 64]
             @ concat (map (page_events (raw_data a)) [4 .. 49])
             @ [Bus_Write (page_frame (raw_data a) 50), Bus_Read 64]"
    by (simp add: run issued_def take_data_page_range_46 del: upto.simps)
  have r: "fst (write_amiibo a True w) = False"
    by (simp add: run)
  have pv: "progress_values ?ev = map progress_percent [4 .. 49]"
    by (simp only: ev progress_values_append progress_values_page_events) simp
  have bw: "last (bus_writes ?ev) = page_frame (raw_data a) 50"
    by (simp only: ev bus_writes_append bus_writes_page_events) simp
  have l: "last (map progress_percent [4 .. 49]) = 35"
    by (simp add: progress_percent_def last_map)
  have n: "length (map progress_percent [4 .. 49]) = 46"
    by (simp del: upto.simps)
  have p49: "progress_percent 49 = 35"
    by (simp add: progress_percent_def)
  show ?thesis
    unfolding pv bw using r l n p49 by (simp add: page_write_target_page_frame del: upto.simps)
qed

text \<open>Claim C5, amended, at the blank image on a bus that fails at page 50.\<close>

theorem write_amiibo_fails_at_page_50_witness:
  "540 \<le> length (raw_data blank_image)
   \<and> write_script (example_world 46) = replicate 48 True @ []
   \<and> read_script (example_world 46)
       = Some example_tag_response # map Some (replicate 46 example_ack_response)
           @ Some example_nak_response # []
   \<and> detect_result example_tag_response = Some [0x04, 0xAA, 0xBB, 0xCC, 0xDD, 0xEE, 0xFF]
   \<and> read_succeeds example_ack_response \<and> \<not> read_succeeds example_nak_response
   \<and> fst (write_amiibo blank_image True (example_world 46)) = False
   \<and> page_write_target (last (bus_writes
        (issued (example_world 46) (snd (write_amiibo blank_image True (example_world 46)))))) = Some 50
   \<and> length (progress_values
        (issued (example_world 46) (snd (write_amiibo blank_image True (example_world 46))))) = 46
   \<and> last (progress_values
        (issued (example_world 46) (snd (write_amiibo blank_image True (example_world 46))))) = 35"
proof -
  have h1: "540 \<le> length (raw_data blank_image)"
    by (simp add: blank_image_def)
  have h2: "write_script (example_world 46) = replicate 48 True @ []"
    by (simp add: example_world_def)
  have h3: "read_script (example_world 46)
       = Some example_tag_response # map Some (replicate 46 example_ack_response)
           @ Some example_nak_response # []"
    by (simp add: example_world_def)
  have h5: "length (replicate 46 example_ack_response) = 46"
    by simp
  have h6: "\<forall>r\<in>set (replicate 46 example_ack_response). read_succeeds r"
    by (simp add: read_succeeds_ack)
  have h8: "\<forall>b\<in>set (callback_script (example_world 46)). b"
    by (simp add: example_world_def)
  from write_amiibo_fails_at_page_50 [OF h1 h2 h3 detect_result_example h5 h6 read_succeeds_nak h8]
    h1 h2 h3 detect_result_example read_succeeds_ack read_succeeds_nak
  show ?thesis
    by blast
qed

text \<open>
  Claim C6, as the specification states it, has each progress value equal to
  \<open>round((page - firstPage) / (lastPageExclusive - firstPage) * 100)\<close>. On a run where
  pages 4 and 5 are acknowledged the values are \<open>[0, 0]\<close>; the formula gives \<open>[0, 1]\<close>.
\<close>

theorem progress_is_truncated_not_rounded:
  "progress_values (issued (example_world 2) (snd (write_amiibo blank_image True (example_world 2))))
     = [0, 0]
   \<and> bus_writes (issued (example_world 2) (snd (write_amiibo blank_image True (example_world 2))))
     = [detect_frame, page_frame (raw_data blank_image) 4, page_frame (raw_data blank_image) 5,
        page_frame (raw_data blank_image) 6]
   \<and> map (spec_progress 4 130) [4, 5] = [0, 1]
   \<and> progress_values (issued (example_world 2) (snd (write_amiibo blank_image True (example_world 2))))
     \<noteq> map (spec_progress 4 130) [4, 5]"
proof -
  let ?ev = "issued (example_world 2) (snd (write_amiibo blank_image True (example_world 2)))"
  have ev: "?ev = [Bus_Write detect_frame, Bus_Read 64]
             @ concat (map (page_events (raw_data blank_image)) [4, 5])
             @ [Bus_Write (page_frame (raw_data blank_image) 6), Bus_Read 64]"
    using example_issued [of 2] by (simp add: take_data_page_range_2)
  have pv: "progress_values ?ev = [0, 0]"
    by (simp only: ev progress_values_append progress_values_page_events)
       (simp add: progress_percent_def)
  have bw: "bus_writes ?ev = [detect_frame, page_frame (raw_data blank_image) 4,
        page_frame (raw_data blank_image) 5, page_frame (raw_data blank_image) 6]"
    by (simp only: ev bus_writes_append bus_writes_page_events) simp
  have sp: "map (spec_progress 4 130) [4, 5] = [0, 1]"
    by (simp add: spec_progress_def round_def)
  show ?thesis
    unfolding pv bw sp by simp
qed

text \<open>
  Claim C6, amended: for every image, bus and callback behaviour, the values passed to
  the progress callback during one \<open>write_amiibo\<close> are non-decreasing, and they are
  \<open>int((page - 4) / (130 - 4) * 100)\<close>, truncated and not rounded, for the pages 4, 5,
  ... in order (none when no callback is passed).
\<close>

theorem write_amiibo_progress_values:
  "\<exists>j \<le> 126. progress_values (issued w (snd (write_amiibo a cb w)))
        = (if cb then map progress_percent (take j data_page_range) else [])
      \<and> sorted (progress_values (issued w (snd (write_amiibo a cb w))))"
proof -
  from write_amiibo_trace [of a cb w] obtain evs k j where
    ev: "trace (snd (write_amiibo a cb w)) = trace w @ evs" "k \<le> 126" "j \<le> k"
        "progress_values evs = (if cb then map progress_percent (take j data_page_range) else [])"
    by blast
  have "issued w (snd (write_amiibo a cb w)) = evs"
    using ev(1) by (rule issued_append)
  moreover have "sorted (progress_values evs)"
    using ev(4) sorted_progress by simp
  moreover have "j \<le> 126" using ev by simp
  ultimately show ?thesis
    using ev(4) by auto
qed

text \<open>Claim C6, amended, at a run that acknowledges two pages.\<close>

theorem write_amiibo_progress_values_witness:
  "sorted (progress_values
      (issued (example_world 2) (snd (write_amiibo blank_image True (example_world 2)))))
   \<and> progress_values
      (issued (example_world 2) (snd (write_amiibo blank_image True (example_world 2))))
     = map progress_percent [4, 5]"
proof -
  let ?ev = "issued (example_world 2) (snd (write_amiibo blank_image True (example_world 2)))"
  from write_amiibo_progress_values [of "example_world 2" blank_image True]
  have "sorted (progress_values ?ev)"
    by blast
  moreover have "progress_values ?ev = map progress_percent [4, 5]"
    using example_issued [of 2]
    by (simp add: take_data_page_range_2 progress_values_append page_events_def)
  ultimately show ?thesis
    by simp
qed

subsection \<open>The tag detector\<close>

lemma scan_offsets_None:
  "scan_offsets response offsets = None \<longleftrightarrow>
     (\<forall>offset\<in>set offsets.
        \<not> (0 < response ! offset \<and> response ! offset < 5
           \<and> offset + 5 < length response
           \<and> 4 \<le> unat (response ! (offset + 5)) \<and> unat (response ! (offset + 5)) \<le> 10
           \<and> offset + 6 + unat (response ! (offset + 5)) \<le> length response))"
proof (induction offsets)
  case Nil
  show ?case by simp
next
  case (Cons offset offsets)
  have len: "length (getslice response (int (offset + 5) + 1)
                 (int (offset + 5) + 1 + int (unat (response ! (offset + 5)))))
             = min (unat (response ! (offset + 5))) (length response - (offset + 6))"
  proof -
    have "getslice response (int (offset + 5) + 1)
            (int (offset + 5) + 1 + int (unat (response ! (offset + 5))))
          = getslice response (int (offset + 6)) (int (offset + 6 + unat (response ! (offset + 5))))"
      by (simp add: add.commute add.left_commute)
    then show ?thesis
      by (simp only: getslice_nat) (simp add: min_def)
  qed
  show ?case
    using Cons.IH len by (auto simp: Let_def)
qed

lemma scan_response_None:
  "scan_response response = None \<longleftrightarrow> (\<forall>offset. \<not> plausible_target response offset)"
  by (auto simp: scan_response_def scan_offsets_None plausible_target_def)

lemma detect_tag_result:
  "fst (detect_tag w) =
     (case write_script w of
        True # _ \<Rightarrow> (case read_script w of Some delivered # _ \<Rightarrow> detect_result delivered | _ \<Rightarrow> None)
      | _ \<Rightarrow> None)"
  by (auto simp: detect_tag_def detect_result_def send_command_def read_response_def
      i2c_write_def i2c_read_def Let_def octets_detect_command
      split: list.splits option.splits bool.splits)

lemma detect_tag_None_if:
  "(\<And>delivered rest. read_script w = Some delivered # rest \<Longrightarrow> detect_result delivered = None)
   \<Longrightarrow> fst (detect_tag w) = None"
  by (auto simp: detect_tag_result split: list.splits option.splits bool.splits)

lemma scan_response_zeros: "scan_response (replicate n 0) = None"
  by (auto simp: scan_response_None plausible_target_def)

lemma detect_result_zeros: "detect_result (replicate n 0) = None"
proof (cases n)
  case 0
  then show ?thesis
    by (simp add: detect_result_def strip_ready_def)
next
  case (Suc m)
  then show ?thesis
    using scan_response_zeros [of "Suc m"] by (simp add: detect_result_def strip_ready_def)
qed

lemma detect_result_scenario_C: "detect_result scenario_C_response = None"
  by code_simp

lemma detect_result_scenario_C_ready: "detect_result (0x01 # scenario_C_response) = None"
  by code_simp

text \<open>
  Claim C7. \<open>detect_tag\<close> returns \<open>None\<close> whenever the response it reads has no plausible
  target pattern in the scanned window; in particular for a read of zero octets only, and
  for the response \<open>01 00 00 FF 02 FE D5 4B 00 00\<close> of scenario C (whether these are the
  octets read from the bus or what is left after the ready octet is stripped). It also
  returns \<open>None\<close>, and raises nothing, when the read is empty or a bus transaction fails.
\<close>

theorem detect_tag_absent:
  "((\<forall>offset. \<not> plausible_target response offset) \<and> strip_ready delivered = Some response
      \<longrightarrow> fst (detect_tag (w\<lparr>read_script := Some delivered # rs\<rparr>)) = None)
   \<and> fst (detect_tag (w\<lparr>read_script := Some (replicate n 0x00) # rs\<rparr>)) = None
   \<and> fst (detect_tag (w\<lparr>read_script := Some scenario_C_response # rs\<rparr>)) = None
   \<and> fst (detect_tag (w\<lparr>read_script := Some (0x01 # scenario_C_response) # rs\<rparr>)) = None
   \<and> fst (detect_tag (w\<lparr>read_script := Some [] # rs\<rparr>)) = None
   \<and> fst (detect_tag (w\<lparr>read_script := None # rs\<rparr>)) = None
   \<and> fst (detect_tag (w\<lparr>read_script := []\<rparr>)) = None
   \<and> fst (detect_tag (w\<lparr>write_script := False # ws\<rparr>)) = None
   \<and> fst (detect_tag (w\<lparr>write_script := []\<rparr>)) = None"
proof (intro conjI impI)
  assume h: "(\<forall>offset. \<not> plausible_target response offset) \<and> strip_ready delivered = Some response"
  then have "detect_result delivered = None"
    by (simp add: detect_result_def scan_response_None)
  then show "fst (detect_tag (w\<lparr>read_script := Some delivered # rs\<rparr>)) = None"
    by (intro detect_tag_None_if) simp
next
  show "fst (detect_tag (w\<lparr>read_script := Some (replicate n 0x00) # rs\<rparr>)) = None"
    by (intro detect_tag_None_if) (simp add: detect_result_zeros)
  show "fst (detect_tag (w\<lparr>read_script := Some scenario_C_response # rs\<rparr>)) = None"
    by (intro detect_tag_None_if) (simp add: detect_result_scenario_C)
  show "fst (detect_tag (w\<lparr>read_script := Some (0x01 # scenario_C_response) # rs\<rparr>)) = None"
    by (intro detect_tag_None_if) (simp add: detect_result_scenario_C_ready)
  show "fst (detect_tag (w\<lparr>read_script := Some [] # rs\<rparr>)) = None"
    by (intro detect_tag_None_if) (simp add: detect_result_def strip_ready_def)
  show "fst (detect_tag (w\<lparr>read_script := None # rs\<rparr>)) = None"
    by (intro detect_tag_None_if) simp
  show "fst (detect_tag (w\<lparr>read_script := []\<rparr>)) = None"
    by (intro detect_tag_None_if) simp
  show "fst (detect_tag (w\<lparr>write_script := False # ws\<rparr>)) = None"
    by (simp add: detect_tag_result)
  show "fst (detect_tag (w\<lparr>write_script := []\<rparr>)) = None"
    by (simp add: detect_tag_result)
qed

text \<open>Claim C7, at the response of scenario C, which has no plausible target pattern.\<close>

theorem detect_tag_absent_witness:
  "(\<forall>offset. \<not> plausible_target [0x00, 0x00, 0xFF, 0x02, 0xFE, 0xD5, 0x4B, 0x00, 0x00] offset)
   \<and> strip_ready scenario_C_response = Some [0x00, 0x00, 0xFF, 0x02, 0xFE, 0xD5, 0x4B, 0x00, 0x00]
   \<and> fst (detect_tag ((example_world 0)\<lparr>read_script := Some scenario_C_response # []\<rparr>)) = None"
proof -
  have "scan_response [0x00, 0x00, 0xFF, 0x02, 0xFE, 0xD5, 0x4B, 0x00, 0x00] = None"
    by code_simp
  then have a: "\<forall>offset. \<not> plausible_target [0x00, 0x00, 0xFF, 0x02, 0xFE, 0xD5, 0x4B, 0x00, 0x00] offset"
    using scan_response_None [of "[0x00, 0x00, 0xFF, 0x02, 0xFE, 0xD5, 0x4B, 0x00, 0x00]"] by blast
  have b: "strip_ready scenario_C_response = Some [0x00, 0x00, 0xFF, 0x02, 0xFE, 0xD5, 0x4B, 0x00, 0x00]"
    by (simp add: strip_ready_def scenario_C_response_def)
  from detect_tag_absent [where response = "[0x00, 0x00, 0xFF, 0x02, 0xFE, 0xD5, 0x4B, 0x00, 0x00]"
      and delivered = scenario_C_response and w = "example_world 0" and rs = "[]"] a b
  show ?thesis
    by blast
qed

subsection \<open>The write orchestrator\<close>

text \<open>
  Claim C8, as the specification states it, has the write without an image report a
  failure of its own, \<open>NoImageLoaded\<close>. \<open>write_to_tag\<close> has one failure value, the
  boolean \<open>False\<close>: a new writer, which has no image, and a writer whose image is too
  short both give \<open>False\<close> with the writer and the world unchanged, so the result does
  not tell them apart.
\<close>

theorem no_image_outcome_is_a_bare_False:
  "write_to_tag True new_amiibo_writer (example_world 125)
     = (False, new_amiibo_writer, example_world 125)
   \<and> write_to_tag True writer_with_short_image (example_world 125)
     = (False, writer_with_short_image, example_world 125)
   \<and> fst (write_to_tag True new_amiibo_writer (example_world 125))
     = fst (write_to_tag True writer_with_short_image (example_world 125))"
  by (simp add: write_to_tag_def new_amiibo_writer_def writer_with_short_image_def
      write_amiibo_def short_image_def)

text \<open>
  Claim C8, amended: with no current image, \<open>write_to_tag\<close> returns \<open>False\<close>, issues no
  bus transaction and leaves the writer and the world as they were. A new writer has no
  current image, and a load that fails does not give it one.
\<close>

theorem write_to_tag_without_image:
  "(current_amiibo self = None \<longrightarrow>
      write_to_tag cb self w = (False, self, w)
      \<and> issued w (snd (snd (write_to_tag cb self w))) = [])
   \<and> current_amiibo new_amiibo_writer = None
   \<and> (current_amiibo self = None \<and> fst (load_amiibo files file_path self) = False \<longrightarrow>
        current_amiibo (snd (load_amiibo files file_path self)) = None)"
  by (auto simp: write_to_tag_def issued_def new_amiibo_writer_def load_amiibo_def
      split: prod.splits bool.splits)

text \<open>Claim C8, at a new writer.\<close>

theorem write_to_tag_without_image_witness:
  "current_amiibo new_amiibo_writer = None
   \<and> write_to_tag True new_amiibo_writer (example_world 125)
       = (False, new_amiibo_writer, example_world 125)
   \<and> issued (example_world 125)
       (snd (snd (write_to_tag True new_amiibo_writer (example_world 125)))) = []"
  using write_to_tag_without_image [where self = new_amiibo_writer and cb = True
      and w = "example_world 125"]
  by blast

subsection \<open>The dump loader\<close>











lemma hex_upper_scenario_A:
  "hex_upper [0x04, 0xAA, 0xBB, 0xCC, 0xDD, 0xEE, 0xFF] = ''04AABBCCDDEEFF''"
  by code_simp






































lemma parse_lines_other:
  assumes "\<not> startswith (strip l) ''UID:''" "\<not> startswith (strip l) ''Page ''"
  shows "parse_lines (l # ls) u dp = parse_lines ls u dp"
  using assms by (simp add: Let_def)






















lemma parse_lines_negative_page:
  "parse_lines (split_char (CHR 0x0A) negative_page_text) [] []
     = Inr ([0x04, 0xAA, 0xBB, 0xCC, 0xDD, 0xEE, 0xFF], [(- 1, [0x01, 0x02, 0x03, 0x04])])"
  by code_simp

lemma place_pages_negative_page:
  "place_pages [(- 1, [0x01, 0x02, 0x03, 0x04])] (replicate 540 0x00)
     = replicate 536 0x00 @ [0x01, 0x02, 0x03, 0x04] @ replicate 4 0x00"
  by code_simp

lemma startswith_negative_page: "startswith negative_page_text ''Filetype: Flipper''"
  by code_simp

text \<open>
  Claim C10, evaluated at a dump that the code does not keep at 540 octets: the image is
  meant to stay 540 octets long, but a \<open>Page -1\<close> line passes the bound check
  (\<open>-4 + 4 <= 540\<close>) and the slice assignment \<open>raw_data[-4:0] = ...\<close> inserts the four
  octets, so the image has 544 octets.
\<close>

theorem negative_page_grows_image:
  "parse_flipper_format negative_page_text name
     = Inr \<lparr> raw_data = replicate 536 0x00 @ [0x01, 0x02, 0x03, 0x04] @ replicate 4 0x00,
             uid = ''04AABBCCDDEEFF'', character = name \<rparr>
   \<and> length (replicate 536 (0x00 :: byte) @ [0x01, 0x02, 0x03, 0x04] @ replicate 4 0x00) = 544
   \<and> fst (nfc_load_amiibo (files(file_path := Some negative_page_text)) file_path nfc_current) = True"
proof -
  have p: "parse_flipper_format negative_page_text name
     = Inr \<lparr> raw_data = replicate 536 0x00 @ [0x01, 0x02, 0x03, 0x04] @ replicate 4 0x00,
             uid = ''04AABBCCDDEEFF'', character = name \<rparr>" for name
    by (simp add: parse_flipper_format_def parse_lines_negative_page place_pages_negative_page
        hex_upper_scenario_A del: place_pages.simps)
  have "fst (nfc_load_amiibo (files(file_path := Some negative_page_text)) file_path nfc_current) = True"
    by (simp add: nfc_load_amiibo_def Let_def startswith_negative_page p)
  with p show ?thesis
    by simp
qed

end
